theory Spec2Isabelle
  imports
    Main
    "HOL-Library.Word"
    "HOL-Library.Char_ord"
    "HOL-Library.List_Lexorder"
    "HOL-Library.Multiset"
    "HOL-Library.Sublist"
begin

section \<open>lssecrets: a shallow embedding of \<open>src/main.cpp\<close>\<close>

text \<open>
  The program walks the secret service (service, collections, items) and writes a report.
  Everything the service answers is data of the model: an object carries the answers that
  libsecret gives for the queries \<open>main.cpp\<close> makes on it. A run is the list of its
  events, in program order: text written to standard output or standard error, and the
  requests made to the service.
\<close>

subsection \<open>Characters outside string literals\<close>

definition nl :: char where
  "nl = CHR 0x0A"

definition dq :: char where
  "dq = CHR 0x22"

subsection \<open>Errors: \<open>to_error\<close> (main.cpp 255-284)\<close>

text \<open>
  A \<open>GError\<close> has a domain, a code and a message. \<open>to_error\<close> compares the domain
  with \<open>SECRET_ERROR\<close> only, and switches on four values of libsecret's enum
  \<open>SecretError\<close>; every other code (the switch has no default) is \<open>SECRET_ERROR_other\<close>.
\<close>

datatype error_domain = SECRET_ERROR | OTHER_DOMAIN nat

datatype SecretError =
    SECRET_ERROR_PROTOCOL
  | SECRET_ERROR_IS_LOCKED
  | SECRET_ERROR_NO_SUCH_OBJECT
  | SECRET_ERROR_ALREADY_EXISTS
  | SECRET_ERROR_other int

record GError =
  domain :: error_domain
  code :: SecretError
  message :: string

text \<open>
  The exceptions of the program: \<open>std::runtime_error\<close> with its message, and the
  \<open>std::bad_optional_access\<close> that \<open>std::optional::value\<close> throws.
\<close>

datatype exn = Runtime_error string | Bad_optional_access

definition to_error :: "GError \<Rightarrow> exn" where
  "to_error err =
     (let msg =
        (if domain err \<noteq> SECRET_ERROR then ''Couldn't get secret service.''
         else (case code err of
             SECRET_ERROR_PROTOCOL \<Rightarrow> ''Received invalid data from secret service.''
           | SECRET_ERROR_IS_LOCKED \<Rightarrow> ''Secret item or collection is locked.''
           | SECRET_ERROR_NO_SUCH_OBJECT \<Rightarrow> ''Secret item or collection not found.''
           | SECRET_ERROR_ALREADY_EXISTS \<Rightarrow> ''Secret item or collection already exists.''
           | SECRET_ERROR_other _ \<Rightarrow> []))
      in Runtime_error (msg @ '' '' @ message err))"

subsection \<open>The hexadecimal dump: \<open>to_string(const gchar*, gsize)\<close> (main.cpp 206-218)\<close>

text \<open>
  The stream is given base 16 and fill character \<open>0\<close>, and each byte is inserted with
  width 2 after a cast to \<open>unsigned char\<close>. The inserter of a character type writes
  the character itself, padded on the left with the fill character to the width; the
  base applies to integers only.
\<close>

definition insert_char :: "nat \<Rightarrow> char \<Rightarrow> char \<Rightarrow> string" where
  "insert_char width fill c = replicate (width - 1) fill @ [c]"

fun to_string_hex :: "char list \<Rightarrow> string" where
  "to_string_hex [] = []"
| "to_string_hex (c # cs) = insert_char 2 (CHR ''0'') c @ to_string_hex cs"

subsection \<open>\<open>std::map\<close> and \<open>std::multimap\<close> with string keys\<close>

text \<open>
  A \<open>std::map\<close> is kept as the list of its entries in iteration order, that is by
  increasing key; \<open>std::string\<close> compares bytewise and lexicographically, which is the
  order of \<open>char list\<close> here. \<open>map_assign k v m\<close> is \<open>m[k] = v\<close>.
\<close>

fun map_assign :: "'k::linorder \<Rightarrow> 'v \<Rightarrow> ('k \<times> 'v) list \<Rightarrow> ('k \<times> 'v) list" where
  "map_assign k v [] = [(k, v)]"
| "map_assign k v ((k', v') # m) =
     (if k < k' then (k, v) # (k', v') # m
      else if k = k' then (k, v) # m
      else (k', v') # map_assign k v m)"

text \<open>
  \<open>std::multimap::emplace\<close> puts the new entry at the upper bound of its key: after
  the entries with an equal key, before the first greater one.
\<close>

fun multimap_emplace :: "'k::linorder \<Rightarrow> 'v \<Rightarrow> ('k \<times> 'v) list \<Rightarrow> ('k \<times> 'v) list" where
  "multimap_emplace k v [] = [(k, v)]"
| "multimap_emplace k v ((k', v') # m) =
     (if k < k' then (k, v) # (k', v') # m
      else (k', v') # multimap_emplace k v m)"

fun equal_range :: "('k \<times> 'v) list \<Rightarrow> 'k \<Rightarrow> ('k \<times> 'v) list" where
  "equal_range [] k = []"
| "equal_range ((k', v') # m) k =
     (if k' = k then (k', v') # equal_range m k else equal_range m k)"

subsection \<open>\<open>to_map\<close> (main.cpp 229-251)\<close>

text \<open>
  The \<open>GHashTable\<close> is the list of its entries in the order its iterator yields them.
\<close>

fun to_map_loop ::
  "(string \<times> string) list \<Rightarrow> (string \<times> string) list \<Rightarrow> (string \<times> string) list" where
  "to_map_loop [] result = result"
| "to_map_loop ((key_s, val_s) # table) result =
     to_map_loop table (map_assign key_s val_s result)"

definition to_map :: "(string \<times> string) list \<Rightarrow> (string \<times> string) list" where
  "to_map table = to_map_loop table []"

subsection \<open>The secret service as the program sees it\<close>

text \<open>
  What libsecret, glibmm and the C++ library contribute: the text of a local time
  (\<open>Glib::DateTime::create_now_local(t).format("%F %T")\<close>) and the text of
  \<open>std::bad_optional_access::what\<close>.
\<close>

record library =
  date_time_format :: "64 word \<Rightarrow> string"
  bad_optional_access_what :: string

record SecretValue =
  content_type :: string
  value_text :: "string option"
  value_bytes :: "char list"

text \<open>
  \<open>value_text\<close> is the answer of \<open>secret_value_get_text\<close> (null when the value
  is not text), \<open>value_bytes\<close> the bytes of \<open>secret_value_get\<close>. For an item or a collection,
  \<open>locked\<close> is what \<open>get_locked\<close> answers, \<open>unlock_reply\<close> the error that
  \<open>secret_service_unlock_sync\<close> sets (none on success), \<open>load_secret_reply\<close> the
  error of \<open>secret_item_load_secret_sync\<close> and \<open>item_secret\<close> what
  \<open>secret_item_get_secret\<close> returns after it.
\<close>

record SecretItem =
  item_label :: "string option"
  item_path :: string
  item_created :: "64 word"
  item_modified :: "64 word"
  item_attributes :: "(string \<times> string) list"
  item_locked :: bool
  item_unlock_reply :: "GError option"
  item_load_secret_reply :: "GError option"
  item_secret :: "SecretValue option"

record SecretCollection =
  col_label :: "string option"
  col_path :: string
  col_created :: "64 word"
  col_modified :: "64 word"
  col_locked :: bool
  col_unlock_reply :: "GError option"
  col_items :: "SecretItem list"

text \<open>
  For the service, \<open>service_get_error\<close> is the error that \<open>secret_service_get_sync\<close>
  sets (none when the connection succeeds), \<open>service_path\<close> its D-Bus object path,
  \<open>alias_dbus_path\<close> the answer of \<open>secret_service_read_alias_dbus_path_sync\<close> (null
  for an alias that is not bound) and \<open>collections\<close> the list that
  \<open>secret_service_get_collections\<close> returns. A timestamp is a \<open>guint64\<close>, zero when
  the service has none.
\<close>

record SecretService =
  service_get_error :: "GError option"
  service_path :: string
  alias_dbus_path :: "string \<Rightarrow> string option"
  collections :: "SecretCollection list"

datatype SecretServiceFlags = SECRET_SERVICE_OPEN_SESSION | SECRET_SERVICE_LOAD_COLLECTIONS

datatype obj = Collection string | Item string

text \<open>
  The events of a run. An object is named by its D-Bus path; \<open>Get_locked\<close> carries the
  lock state that was read.
\<close>

datatype event =
    Stdout string
  | Stderr string
  | Service_get "SecretServiceFlags set"
  | Read_alias string
  | Get_collections
  | Get_locked obj bool
  | Unlock obj
  | Get_items string
  | Load_secret string

record App =
  show_secrets :: bool
  do_unlock :: bool

subsection \<open>Small functions of main.cpp\<close>

text \<open>
  \<open>to_string(gchar*)\<close> and \<open>to_string(const gchar*)\<close> (main.cpp 183-203): a null
  pointer gives the empty optional, a string gives its copy.
\<close>

definition to_string :: "string option \<Rightarrow> string option" where
  "to_string s = (case s of None \<Rightarrow> None | Some chars \<Rightarrow> Some chars)"

fun what :: "library \<Rightarrow> exn \<Rightarrow> string" where
  "what lib (Runtime_error msg) = msg"
| "what lib Bad_optional_access = bad_optional_access_what lib"

definition timestamp_to_string :: "library \<Rightarrow> 64 word \<Rightarrow> string option" where
  "timestamp_to_string lib t = Some (date_time_format lib t)"

text \<open>
  \<open>App::unlock\<close> (main.cpp 572-589): one request for the one object, then the error
  converted, or nothing.
\<close>

definition unlock :: "obj \<Rightarrow> GError option \<Rightarrow> event list \<times> exn option" where
  "unlock target reply =
     ([Unlock target], (case reply of Some error \<Rightarrow> Some (to_error error) | None \<Rightarrow> None))"

text \<open>
  The two timestamp lines (main.cpp 445-457 and 492-504). In
  \<open>cout << indent << "  Created: " << timestamp_to_string(created).value() << '\n'\<close>
  the operands are evaluated from left to right (C++17), so what stands before
  \<open>value()\<close> is written before it can throw.
\<close>

definition print_timestamp ::
  "library \<Rightarrow> string \<Rightarrow> string \<Rightarrow> 64 word \<Rightarrow> event list \<times> exn option" where
  "print_timestamp lib indent name t =
     (if t \<noteq> 0 then
        (case timestamp_to_string lib t of
           None \<Rightarrow> ([Stdout (indent @ name)], Some Bad_optional_access)
         | Some s \<Rightarrow> ([Stdout (indent @ name @ s @ [nl])], None))
      else ([], None))"

definition print_timestamps ::
  "library \<Rightarrow> string \<Rightarrow> 64 word \<Rightarrow> 64 word \<Rightarrow> event list \<times> exn option" where
  "print_timestamps lib indent created modified =
     (case print_timestamp lib indent ''  Created: '' created of
        (es, Some e) \<Rightarrow> (es, Some e)
      | (es, None) \<Rightarrow>
          (case print_timestamp lib indent ''  Modified: '' modified of
             (es', r) \<Rightarrow> (es @ es', r)))"

subsection \<open>\<open>App::print(SecretItem)\<close> (main.cpp 477-569)\<close>

fun print_attribute_lines :: "string \<Rightarrow> (string \<times> string) list \<Rightarrow> event list" where
  "print_attribute_lines attrib_indent [] = []"
| "print_attribute_lines attrib_indent ((key, val) # attributes) =
     Stdout (attrib_indent @ ''  '' @ [dq] @ key @ [dq] @ '' = '' @ [dq] @ val @ [dq, nl])
       # print_attribute_lines attrib_indent attributes"

text \<open>Lines 538-568: the loaded secret, or the complaint that it is null.\<close>

definition print_secret_value :: "string \<Rightarrow> SecretValue option \<Rightarrow> event list" where
  "print_secret_value indent val =
     (case val of
        Some v \<Rightarrow>
          [Stdout (indent @ ''  Secret:'' @ [nl]),
           Stdout (indent @ ''    Type: '' @ content_type v @ [nl]),
           (case value_text v of
              Some t \<Rightarrow> Stdout (indent @ ''    Value: '' @ [dq] @ t @ [dq, nl])
            | None \<Rightarrow>
                Stdout (indent @ ''    Value: { '' @ to_string_hex (value_bytes v)
                          @ '' } (hex)'' @ [nl]))]
      | None \<Rightarrow> [Stdout (indent @ ''  Error: secret is null'' @ [nl])])"

text \<open>Lines 529-568: what follows the lock handling when it has not returned.\<close>

definition print_item_secret :: "library \<Rightarrow> App \<Rightarrow> SecretItem \<Rightarrow> string \<Rightarrow> event list" where
  "print_item_secret lib app item indent =
     (if \<not> show_secrets app then []
      else
        Load_secret (item_path item) #
        (case item_load_secret_reply item of
           Some error \<Rightarrow> [Stdout (indent @ ''  Error: '' @ what lib (to_error error) @ [nl])]
         | None \<Rightarrow> print_secret_value indent (item_secret item)))"

text \<open>
  The function has one piece of state, the function-local
  \<open>static const std::string attrib_indent\<close>, initialised from \<open>indent\<close> the first time
  an item with attributes is printed and kept for the rest of the run: \<open>None\<close> before,
  \<open>Some\<close> after. The result is the events, that state, and the exception if one
  leaves the function.
\<close>

definition print_item ::
  "library \<Rightarrow> App \<Rightarrow> SecretItem \<Rightarrow> string \<Rightarrow> string option
     \<Rightarrow> event list \<times> string option \<times> exn option" where
  "print_item lib app item indent static =
     (case to_string (item_label item) of
        None \<Rightarrow> ([Stdout (indent @ ''Item: '' @ [dq])], static, Some Bad_optional_access)
      | Some label \<Rightarrow>
          (let head = [Stdout (indent @ ''Item: '' @ [dq] @ label @ [dq, nl]),
                       Stdout (indent @ ''  Path: '' @ item_path item @ [nl])]
           in case print_timestamps lib indent (item_created item) (item_modified item) of
             (ts, Some e) \<Rightarrow> (head @ ts, static, Some e)
           | (ts, None) \<Rightarrow>
               (let attributes = to_map (item_attributes item);
                    attrib_indent = (case static of None \<Rightarrow> indent @ ''    '' | Some s \<Rightarrow> s);
                    static' = (if attributes \<noteq> [] then Some attrib_indent else static);
                    attribute_lines =
                      (if attributes \<noteq> [] then
                         Stdout (indent @ ''  Attributes:'' @ [nl])
                           # print_attribute_lines attrib_indent attributes
                       else []);
                    locked = item_locked item;
                    before = head @ ts @ attribute_lines
                               @ [Get_locked (Item (item_path item)) locked]
                in if locked \<and> do_unlock app then
                     (case unlock (Item (item_path item)) (item_unlock_reply item) of
                        (us, Some error) \<Rightarrow>
                          (before @ us @ [Stdout (indent @ ''  Error: '' @ what lib error @ [nl])],
                           static', None)
                      | (us, None) \<Rightarrow>
                          (before @ us @ print_item_secret lib app item indent, static', None))
                   else (before @ print_item_secret lib app item indent, static', None))))"

fun print_items ::
  "library \<Rightarrow> App \<Rightarrow> SecretItem list \<Rightarrow> string \<Rightarrow> string option
     \<Rightarrow> event list \<times> string option \<times> exn option" where
  "print_items lib app [] indent static = ([], static, None)"
| "print_items lib app (item # items) indent static =
     (case print_item lib app item indent static of
        (es, static', Some e) \<Rightarrow> (es, static', Some e)
      | (es, static', None) \<Rightarrow>
          (case print_items lib app items indent static' of
             (es', static'', r) \<Rightarrow> (es @ Stdout [nl] # es', static'', r)))"

subsection \<open>\<open>App::print(SecretCollection)\<close> (main.cpp 420-474)\<close>

fun print_alias_lines :: "string \<Rightarrow> (string \<times> string) list \<Rightarrow> event list" where
  "print_alias_lines indent [] = []"
| "print_alias_lines indent ((path, alias) # entries) =
     Stdout (indent @ ''  Alias: '' @ alias @ [nl]) # print_alias_lines indent entries"

definition print_collection ::
  "library \<Rightarrow> App \<Rightarrow> SecretCollection \<Rightarrow> (string \<times> string) list \<Rightarrow> string \<Rightarrow> string option
     \<Rightarrow> event list \<times> string option \<times> exn option" where
  "print_collection lib app col reverse_aliases indent static =
     (case to_string (col_label col) of
        None \<Rightarrow> ([Stdout (indent @ ''Collection: '' @ [dq])], static, Some Bad_optional_access)
      | Some label \<Rightarrow>
          (let head = [Stdout (indent @ ''Collection: '' @ [dq] @ label @ [dq, nl]),
                       Stdout (indent @ ''  Path: '' @ col_path col @ [nl])]
                      @ print_alias_lines indent (equal_range reverse_aliases (col_path col))
           in case print_timestamps lib indent (col_created col) (col_modified col) of
             (ts, Some e) \<Rightarrow> (head @ ts, static, Some e)
           | (ts, None) \<Rightarrow>
               (let locked = col_locked col;
                    lock_handling =
                      Get_locked (Collection (col_path col)) locked #
                      (if locked \<and> do_unlock app then
                         (case unlock (Collection (col_path col)) (col_unlock_reply col) of
                            (us, Some error) \<Rightarrow>
                              us @ [Stdout (indent @ ''  Error: '' @ what lib error @ [nl])]
                          | (us, None) \<Rightarrow> us)
                       else [])
                in case print_items lib app (col_items col) (indent @ ''    '') static of
                  (its, static', r) \<Rightarrow>
                    (head @ ts @ lock_handling @ [Stdout [nl], Get_items (col_path col)] @ its,
                     static', r))))"

fun print_collections ::
  "library \<Rightarrow> App \<Rightarrow> SecretCollection list \<Rightarrow> (string \<times> string) list \<Rightarrow> string option
     \<Rightarrow> event list \<times> string option \<times> exn option" where
  "print_collections lib app [] reverse_aliases static = ([], static, None)"
| "print_collections lib app (col # cols) reverse_aliases static =
     (case print_collection lib app col reverse_aliases ''    '' static of
        (es, static', Some e) \<Rightarrow> (es, static', Some e)
      | (es, static', None) \<Rightarrow>
          (case print_collections lib app cols reverse_aliases static' of
             (es', static'', r) \<Rightarrow> (es @ Stdout [nl] # es', static'', r)))"

subsection \<open>\<open>App::print()\<close> and \<open>App::on_activate\<close> (main.cpp 346-417)\<close>

definition known_aliases :: "string list" where
  "known_aliases = [''default'', ''login'', ''session'']"

text \<open>
  The loop of lines 389-398: one read per alias; a null answer leaves both maps as they
  are. The result is the requests made, the map \<open>aliases\<close> and the multimap
  \<open>reverse_aliases\<close>.
\<close>

fun read_aliases ::
  "SecretService \<Rightarrow> string list \<Rightarrow> (string \<times> string) list \<Rightarrow> (string \<times> string) list
     \<Rightarrow> event list \<times> (string \<times> string) list \<times> (string \<times> string) list" where
  "read_aliases service [] aliases reverse_aliases = ([], aliases, reverse_aliases)"
| "read_aliases service (alias # rest) aliases reverse_aliases =
     (case (case to_string (alias_dbus_path service alias) of
              Some path \<Rightarrow>
                read_aliases service rest
                  (map_assign alias path aliases) (multimap_emplace path alias reverse_aliases)
            | None \<Rightarrow> read_aliases service rest aliases reverse_aliases) of
        (es, r) \<Rightarrow> (Read_alias alias # es, r))"

fun print_aliases :: "(string \<times> string) list \<Rightarrow> event list" where
  "print_aliases [] = []"
| "print_aliases ((alias, path) # aliases) =
     Stdout (''    '' @ alias @ '': '' @ path @ [nl]) # print_aliases aliases"

definition service_flags :: "App \<Rightarrow> SecretServiceFlags set" where
  "service_flags app =
     {SECRET_SERVICE_LOAD_COLLECTIONS}
       \<union> (if show_secrets app then {SECRET_SERVICE_OPEN_SESSION} else {})"

definition print :: "library \<Rightarrow> App \<Rightarrow> SecretService \<Rightarrow> event list \<times> exn option" where
  "print lib app service =
     (case service_get_error service of
        Some service_error \<Rightarrow> ([Service_get (service_flags app)], Some (to_error service_error))
      | None \<Rightarrow>
          (case read_aliases service known_aliases [] [] of
             (reads, aliases, reverse_aliases) \<Rightarrow>
               (case print_collections lib app (collections service) reverse_aliases None of
                  (cs, static, r) \<Rightarrow>
                    ([Service_get (service_flags app),
                      Stdout (''Service'' @ [nl]),
                      Stdout (''  Path: '' @ service_path service @ [nl])]
                     @ reads
                     @ (if aliases \<noteq> [] then Stdout (''  Aliases:'' @ [nl]) # print_aliases aliases
                        else [])
                     @ [Stdout [nl], Get_collections]
                     @ cs, r))))"

definition on_activate :: "library \<Rightarrow> App \<Rightarrow> SecretService \<Rightarrow> event list" where
  "on_activate lib app service =
     (case print lib app service of
        (es, None) \<Rightarrow> es
      | (es, Some e) \<Rightarrow> es @ [Stderr (''Error: '' @ what lib e @ [nl])])"

subsection \<open>Reading a run\<close>

fun is_stdout :: "event \<Rightarrow> bool" where
  "is_stdout (Stdout s) = True"
| "is_stdout e = False"

fun is_stderr :: "event \<Rightarrow> bool" where
  "is_stderr (Stderr s) = True"
| "is_stderr e = False"

fun is_read_alias :: "event \<Rightarrow> bool" where
  "is_read_alias (Read_alias alias) = True"
| "is_read_alias e = False"

fun is_load_secret :: "event \<Rightarrow> bool" where
  "is_load_secret (Load_secret path) = True"
| "is_load_secret e = False"

text \<open>The lock-state reads and unlock requests made on one object.\<close>

fun concerns :: "obj \<Rightarrow> event \<Rightarrow> bool" where
  "concerns target (Get_locked t locked) = (t = target)"
| "concerns target (Unlock t) = (t = target)"
| "concerns target e = False"

text \<open>What a run has written to standard output.\<close>

fun stdout_text :: "event list \<Rightarrow> string" where
  "stdout_text [] = []"
| "stdout_text (Stdout s # es) = s @ stdout_text es"
| "stdout_text (e # es) = stdout_text es"

text \<open>
  The unlock policy on a run: a lock state read as true, with unlocking requested, is
  followed at once by the unlock request for that object, and no unlock request stands
  anywhere else.
\<close>

fun unlock_policy :: "bool \<Rightarrow> event list \<Rightarrow> bool" where
  "unlock_policy requested [] = True"
| "unlock_policy requested (Get_locked target locked # es) =
     (if locked \<and> requested then
        (case es of
           Unlock target' # es' \<Rightarrow> target' = target \<and> unlock_policy requested es'
         | _ \<Rightarrow> False)
      else unlock_policy requested es)"
| "unlock_policy requested (Unlock target # es) = False"
| "unlock_policy requested (e # es) = unlock_policy requested es"

text \<open>The requests of a run: its events other than what is written.\<close>

fun is_request :: "event \<Rightarrow> bool" where
  "is_request (Stdout s) = False"
| "is_request (Stderr s) = False"
| "is_request e = True"

text \<open>Every collection of the service and every item in them has a label.\<close>

definition labelled :: "SecretService \<Rightarrow> bool" where
  "labelled service =
     (\<forall>col \<in> set (collections service).
        col_label col \<noteq> None \<and> (\<forall>item \<in> set (col_items col). item_label item \<noteq> None))"

subsection \<open>A sample keyring\<close>

text \<open>
  One collection "Login", locked, reached by the aliases \<open>default\<close> and \<open>login\<close>, whose
  unlocking the user dismisses. It holds a locked item "Blob" with two attributes and a
  binary secret, whose unlocking is dismissed as well, and an unlocked item "Test" with
  the attribute \<open>app = demo\<close> and the text secret \<open>hunter2\<close>.
\<close>

definition sample_library :: library where
  "sample_library =
     \<lparr>date_time_format = (\<lambda>t. ''2024-05-01 12:00:00''),
      bad_optional_access_what = ''bad optional access''\<rparr>"

definition dismissed :: GError where
  "dismissed = \<lparr>domain = SECRET_ERROR, code = SECRET_ERROR_IS_LOCKED, message = ''dismissed''\<rparr>"

definition item_blob :: SecretItem where
  "item_blob =
     \<lparr>item_label = Some ''Blob'', item_path = ''/c/login/1'',
      item_created = 0, item_modified = 0,
      item_attributes = [(''user'', ''me''), (''app'', ''demo'')],
      item_locked = True, item_unlock_reply = Some dismissed,
      item_load_secret_reply = Some dismissed,
      item_secret = Some \<lparr>content_type = ''application/octet-stream'', value_text = None,
                           value_bytes = [CHR 0xDE, CHR 0xAD]\<rparr>\<rparr>"

definition item_test :: SecretItem where
  "item_test =
     \<lparr>item_label = Some ''Test'', item_path = ''/c/login/2'',
      item_created = 1700000000, item_modified = 0,
      item_attributes = [(''app'', ''demo'')],
      item_locked = False, item_unlock_reply = None,
      item_load_secret_reply = None,
      item_secret = Some \<lparr>content_type = ''text/plain'', value_text = Some ''hunter2'',
                           value_bytes = ''hunter2''\<rparr>\<rparr>"

definition collection_login :: SecretCollection where
  "collection_login =
     \<lparr>col_label = Some ''Login'', col_path = ''/c/login'',
      col_created = 0, col_modified = 1700000000,
      col_locked = True, col_unlock_reply = Some dismissed,
      col_items = [item_blob, item_test]\<rparr>"

definition sample_service :: SecretService where
  "sample_service =
     \<lparr>service_get_error = None, service_path = ''/org/freedesktop/secrets'',
      alias_dbus_path = (\<lambda>a. if a = ''default'' \<or> a = ''login'' then Some ''/c/login'' else None),
      collections = [collection_login]\<rparr>"

text \<open>
  A keyring with errors in it: in "Login", after "Blob", an item whose secret cannot be
  loaded and one more item; after "Login", a second collection, locked as well.
\<close>

definition keyring_with_errors :: SecretService where
  "keyring_with_errors =
     sample_service\<lparr>collections :=
       [collection_login\<lparr>col_items :=
          [item_blob,
           item_test\<lparr>item_load_secret_reply := Some dismissed\<rparr>,
           item_test\<lparr>item_path := ''/c/login/3''\<rparr>]\<rparr>,
        collection_login\<lparr>col_path := ''/c/other'', col_items := [item_test]\<rparr>]\<rparr>"

definition no_options :: App where
  "no_options = \<lparr>show_secrets = False, do_unlock = False\<rparr>"

definition unlock_only :: App where
  "unlock_only = \<lparr>show_secrets = False, do_unlock = True\<rparr>"

definition secrets_and_unlock :: App where
  "secrets_and_unlock = \<lparr>show_secrets = True, do_unlock = True\<rparr>"

lemmas sample_defs =
  sample_library_def dismissed_def item_blob_def item_test_def collection_login_def
  sample_service_def keyring_with_errors_def no_options_def unlock_only_def
  secrets_and_unlock_def

lemmas run_defs =
  on_activate_def print_def print_collection_def print_item_def print_item_secret_def
  print_secret_value_def print_timestamps_def print_timestamp_def timestamp_to_string_def
  unlock_def to_error_def to_map_def known_aliases_def service_flags_def insert_char_def
  nl_def dq_def

subsection \<open>Lemmas: the conversion of a label\<close>

lemma to_string_same [simp]: "to_string s = s"
  by (cases s) (simp_all add: to_string_def)

subsection \<open>Lemmas: the dump\<close>

lemma to_string_hex_raw: "to_string_hex bytes = concat (map (\<lambda>c. [CHR ''0'', c]) bytes)"
  by (induction bytes) (simp_all add: insert_char_def)

subsection \<open>Lemmas: the sorted map\<close>

lemma map_of_map_assign: "map_of (map_assign k v m) = (map_of m)(k \<mapsto> v)"
  by (induction m) (auto simp: fun_upd_twist)

lemma in_map_assign: "x \<in> set (map_assign k v m) \<Longrightarrow> fst x = k \<or> x \<in> set m"
  by (induction m) (auto split: if_splits)

lemma sorted_map_assign:
  "sorted_wrt (<) (map fst m) \<Longrightarrow> sorted_wrt (<) (map fst (map_assign k v m))"
proof (induction m)
  case Nil
  then show ?case by simp
next
  case (Cons a m)
  obtain k' v' where a: "a = (k', v')" by (cases a)
  from Cons.prems have tl: "sorted_wrt (<) (map fst m)" and hd: "\<forall>x\<in>set m. k' < fst x"
    by (auto simp: a)
  show ?case
  proof (cases "k < k'")
    case True
    with Cons.prems show ?thesis by (auto simp: a)
  next
    case False
    show ?thesis
    proof (cases "k = k'")
      case True
      with Cons.prems show ?thesis by (auto simp: a)
    next
      case ne: False
      with False have lt: "k' < k" by simp
      have "\<forall>x\<in>set (map_assign k v m). k' < fst x"
      proof
        fix x assume "x \<in> set (map_assign k v m)"
        then have "fst x = k \<or> x \<in> set m"
          by (rule in_map_assign)
        with lt hd show "k' < fst x" by auto
      qed
      with False ne Cons.IH [OF tl] show ?thesis by (simp add: a)
    qed
  qed
qed

lemma map_of_to_map_loop:
  "map_of (to_map_loop table result) = map_of result ++ map_of (rev table)"
proof (induction table arbitrary: result)
  case Nil
  then show ?case by simp
next
  case (Cons a table)
  obtain k v where a: "a = (k, v)" by (cases a)
  have "map_of (to_map_loop (a # table) result)
          = map_of (map_assign k v result) ++ map_of (rev table)"
    using Cons.IH [of "map_assign k v result"] by (simp add: a)
  also have "\<dots> = (map_of result)(k \<mapsto> v) ++ map_of (rev table)"
    by (simp only: map_of_map_assign)
  also have "\<dots> = map_of result ++ map_of (rev (a # table))"
    by (rule ext) (simp add: a map_add_def split: option.splits)
  finally show ?case .
qed

lemma sorted_to_map_loop:
  "sorted_wrt (<) (map fst result) \<Longrightarrow> sorted_wrt (<) (map fst (to_map_loop table result))"
  by (induction table result rule: to_map_loop.induct) (simp_all add: sorted_map_assign)

lemma sorted_to_map: "sorted_wrt (<) (map fst (to_map table))"
  by (simp add: to_map_def sorted_to_map_loop)

lemma distinct_keys_to_map: "distinct (map fst (to_map table))"
  using sorted_to_map [of table] strict_sorted_iff by blast

lemma map_of_to_map: "map_of (to_map table) = map_of (rev table)"
  by (simp add: to_map_def map_of_to_map_loop)

lemma set_to_map:
  assumes "distinct (map fst table)"
  shows "set (to_map table) = set table"
proof -
  have "distinct (map fst (rev table))" using assms by (simp add: rev_map [symmetric])
  then have "set (to_map table) = set (rev table)"
    using map_of_to_map [of table] distinct_keys_to_map [of table] map_of_inject_set by blast
  then show ?thesis by simp
qed

lemma sorted_keys_unique:
  assumes "sorted_wrt (<) (map fst xs)" "sorted_wrt (<) (map fst ys)" "set xs = set ys"
  shows "xs = (ys :: ('k::linorder \<times> 'v) list)"
proof -
  have dx: "distinct (map fst xs)" and dy: "distinct (map fst ys)"
    using assms strict_sorted_iff by blast+
  have sx: "sorted (map fst xs)" and sy: "sorted (map fst ys)"
    using assms strict_sorted_iff by blast+
  have "inj_on fst (set xs \<union> set ys)"
    using dx assms(3) by (simp add: distinct_map)
  then show ?thesis
    using map_sorted_distinct_set_unique [of fst xs ys] sx sy dx dy assms(3) by blast
qed

lemma to_map_order_independent:
  assumes "distinct (map fst table)" "mset table' = mset table"
  shows "to_map table' = to_map table"
proof -
  have "mset (map fst table') = mset (map fst table)" using assms(2) by (metis mset_map)
  then have d': "distinct (map fst table')" using assms(1) by (metis mset_eq_imp_distinct_iff)
  have "set table' = set table" using assms(2) by (metis mset_eq_setD)
  then have "set (to_map table') = set (to_map table)"
    using set_to_map [OF assms(1)] set_to_map [OF d'] by simp
  then show ?thesis
    using sorted_keys_unique sorted_to_map by blast
qed

subsection \<open>Lemmas: the shape of what is printed\<close>

lemma print_timestamps_shape:
  "\<exists>ts. print_timestamps lib indent created modified = (ts, None) \<and> (\<forall>e\<in>set ts. is_stdout e)"
  by (simp add: print_timestamps_def print_timestamp_def timestamp_to_string_def)

lemma print_attribute_lines_stdout: "\<forall>e\<in>set (print_attribute_lines attrib_indent attributes). is_stdout e"
  by (induction attrib_indent attributes rule: print_attribute_lines.induct) simp_all

lemma print_alias_lines_stdout: "\<forall>e\<in>set (print_alias_lines indent entries). is_stdout e"
  by (induction indent entries rule: print_alias_lines.induct) simp_all

lemma print_aliases_stdout: "\<forall>e\<in>set (print_aliases aliases). is_stdout e"
  by (induction aliases rule: print_aliases.induct) simp_all

lemma print_item_shape:
  assumes "item_label item = Some label"
  shows "\<exists>written static'. (\<forall>e\<in>set written. is_stdout e) \<and>
     print_item lib app item indent static =
       (written @ Get_locked (Item (item_path item)) (item_locked item) #
          (if item_locked item \<and> do_unlock app then
             Unlock (Item (item_path item)) #
               (case item_unlock_reply item of
                  Some err \<Rightarrow> [Stdout (indent @ ''  Error: '' @ what lib (to_error err) @ [nl])]
                | None \<Rightarrow> print_item_secret lib app item indent)
           else print_item_secret lib app item indent), static', None)"
proof -
  obtain ts where ts: "print_timestamps lib indent (item_created item) (item_modified item) = (ts, None)"
    and out: "\<forall>e\<in>set ts. is_stdout e"
    using print_timestamps_shape by blast
  define attributes where "attributes = to_map (item_attributes item)"
  define attrib_indent where
    "attrib_indent = (case static of None \<Rightarrow> indent @ ''    '' | Some s \<Rightarrow> s)"
  define written where
    "written = [Stdout (indent @ ''Item: '' @ [dq] @ label @ [dq, nl]),
             Stdout (indent @ ''  Path: '' @ item_path item @ [nl])] @ ts
            @ (if attributes \<noteq> [] then
                 Stdout (indent @ ''  Attributes:'' @ [nl])
                   # print_attribute_lines attrib_indent attributes
               else [])"
  define static' where "static' = (if attributes \<noteq> [] then Some attrib_indent else static)"
  have 1: "\<forall>e\<in>set written. is_stdout e"
    using out print_attribute_lines_stdout [of attrib_indent attributes]
    by (auto simp: written_def)
  have 2: "print_item lib app item indent static =
       (written @ Get_locked (Item (item_path item)) (item_locked item) #
          (if item_locked item \<and> do_unlock app then
             Unlock (Item (item_path item)) #
               (case item_unlock_reply item of
                  Some err \<Rightarrow> [Stdout (indent @ ''  Error: '' @ what lib (to_error err) @ [nl])]
                | None \<Rightarrow> print_item_secret lib app item indent)
           else print_item_secret lib app item indent), static', None)"
    by (simp add: print_item_def assms ts Let_def unlock_def written_def static'_def
          attributes_def attrib_indent_def split: option.splits)
  show ?thesis using 1 2 by blast
qed

lemma print_item_absent:
  assumes "item_label item = None"
  shows "print_item lib app item indent static
           = ([Stdout (indent @ ''Item: '' @ [dq])], static, Some Bad_optional_access)"
  by (simp add: print_item_def assms)


lemma print_item_exn:
  "snd (snd (print_item lib app item indent static))
     = (if item_label item = None then Some Bad_optional_access else None)"
proof (cases "item_label item")
  case None
  then show ?thesis by (simp add: print_item_absent)
next
  case (Some label)
  from print_item_shape [OF Some, of lib app indent static] show ?thesis
    using Some by auto
qed

lemma print_items_exn:
  "snd (snd (print_items lib app items indent static))
     = (if \<forall>item\<in>set items. item_label item \<noteq> None then None else Some Bad_optional_access)"
proof (induction items arbitrary: static)
  case Nil
  then show ?case by simp
next
  case (Cons item items)
  obtain es st r where p: "print_item lib app item indent static = (es, st, r)"
    by (cases "print_item lib app item indent static")
  have r: "r = (if item_label item = None then Some Bad_optional_access else None)"
    using print_item_exn [of lib app item indent static] by (simp add: p)
  obtain es' st' r' where q: "print_items lib app items indent st = (es', st', r')"
    by (cases "print_items lib app items indent st")
  have r': "r' = (if \<forall>item\<in>set items. item_label item \<noteq> None then None
                  else Some Bad_optional_access)"
    using Cons.IH [of st] by (simp add: q)
  show ?case
    by (simp add: p q r r')
qed

subsection \<open>Lemmas: the unlock policy\<close>

lemma unlock_policy_stdout:
  "\<forall>e\<in>set written. is_stdout e \<Longrightarrow> unlock_policy requested (written @ es) = unlock_policy requested es"
proof (induction written)
  case Nil
  then show ?case by simp
next
  case (Cons e written)
  then obtain s where "e = Stdout s" by (cases e) simp_all
  with Cons show ?case by simp
qed

lemma unlock_policy_append:
  "unlock_policy requested es \<Longrightarrow> unlock_policy requested es' \<Longrightarrow> unlock_policy requested (es @ es')"
proof (induction requested es rule: unlock_policy.induct)
  case (2 requested target locked es)
  show ?case
  proof (cases "locked \<and> requested")
    case True
    with "2.prems"(1) obtain es0 where es: "es = Unlock target # es0" and p: "unlock_policy requested es0"
      by (auto split: list.splits event.splits)
    from "2.IH"(1) [OF True es refl p "2.prems"(2)] True es show ?thesis by simp
  next
    case False
    with 2 show ?thesis by auto
  qed
qed simp_all


lemma unlock_policy_iff:
  "unlock_policy requested es \<Longrightarrow>
     (Unlock target \<in> set es \<longleftrightarrow> requested \<and> Get_locked target True \<in> set es)"
proof (induction requested es rule: unlock_policy.induct)
  case (2 requested t locked es)
  show ?case
  proof (cases "locked \<and> requested")
    case True
    with "2.prems"(1) obtain es0 where es: "es = Unlock t # es0" and p: "unlock_policy requested es0"
      by (auto split: list.splits event.splits)
    from "2.IH"(1) [OF True es refl p] True es show ?thesis by auto
  next
    case False
    with 2 show ?thesis by auto
  qed
qed simp_all

subsection \<open>Lemmas: items and collections\<close>

lemma unlock_policy_item_secret: "unlock_policy requested (print_item_secret lib app item indent)"
  by (simp add: print_item_secret_def print_secret_value_def split: option.splits)

lemma unlock_policy_item:
  "unlock_policy (do_unlock app) (fst (print_item lib app item indent static))"
proof (cases "item_label item")
  case None
  then show ?thesis by (simp add: print_item_absent)
next
  case (Some label)
  from print_item_shape [OF Some, of lib app indent static]
  obtain written static' where w: "\<forall>e\<in>set written. is_stdout e"
    and p: "fst (print_item lib app item indent static) =
       written @ Get_locked (Item (item_path item)) (item_locked item) #
          (if item_locked item \<and> do_unlock app then
             Unlock (Item (item_path item)) #
               (case item_unlock_reply item of
                  Some err \<Rightarrow> [Stdout (indent @ ''  Error: '' @ what lib (to_error err) @ [nl])]
                | None \<Rightarrow> print_item_secret lib app item indent)
           else print_item_secret lib app item indent)"
    by auto
  have s: "unlock_policy (do_unlock app) (print_item_secret lib app item indent)"
    by (rule unlock_policy_item_secret)
  show ?thesis
    unfolding p unlock_policy_stdout [OF w]
    using s by (auto split: option.splits)
qed

lemma unlock_policy_items:
  "unlock_policy (do_unlock app) (fst (print_items lib app items indent static))"
proof (induction items arbitrary: static)
  case Nil
  then show ?case by simp
next
  case (Cons item items)
  obtain es st r where p: "print_item lib app item indent static = (es, st, r)"
    by (cases "print_item lib app item indent static")
  obtain es' st' r' where q: "print_items lib app items indent st = (es', st', r')"
    by (cases "print_items lib app items indent st")
  have 1: "unlock_policy (do_unlock app) es"
    using unlock_policy_item [of app lib item indent static] by (simp add: p)
  have 2: "unlock_policy (do_unlock app) (Stdout [nl] # es')"
    using Cons.IH [of st] by (simp add: q)
  show ?case
    using 1 unlock_policy_append [OF 1 2] by (cases r) (simp_all add: p q)
qed

lemma print_collection_absent:
  assumes "col_label col = None"
  shows "print_collection lib app col reverse_aliases indent static
           = ([Stdout (indent @ ''Collection: '' @ [dq])], static, Some Bad_optional_access)"
  by (simp add: print_collection_def assms)

lemma print_collection_shape:
  assumes "col_label col = Some label"
  shows "\<exists>written. (\<forall>e\<in>set written. is_stdout e) \<and>
     print_collection lib app col reverse_aliases indent static =
       (written @ Get_locked (Collection (col_path col)) (col_locked col) #
          (if col_locked col \<and> do_unlock app then
             Unlock (Collection (col_path col)) #
               (case col_unlock_reply col of
                  Some err \<Rightarrow> [Stdout (indent @ ''  Error: '' @ what lib (to_error err) @ [nl])]
                | None \<Rightarrow> [])
           else [])
          @ [Stdout [nl], Get_items (col_path col)]
          @ fst (print_items lib app (col_items col) (indent @ ''    '') static),
        snd (print_items lib app (col_items col) (indent @ ''    '') static))"
proof -
  obtain ts where ts: "print_timestamps lib indent (col_created col) (col_modified col) = (ts, None)"
    and out: "\<forall>e\<in>set ts. is_stdout e"
    using print_timestamps_shape by blast
  define written where
    "written = [Stdout (indent @ ''Collection: '' @ [dq] @ label @ [dq, nl]),
               Stdout (indent @ ''  Path: '' @ col_path col @ [nl])]
               @ print_alias_lines indent (equal_range reverse_aliases (col_path col)) @ ts"
  have 1: "\<forall>e\<in>set written. is_stdout e"
    using out print_alias_lines_stdout [of indent "equal_range reverse_aliases (col_path col)"]
    by (auto simp: written_def)
  have 2: "print_collection lib app col reverse_aliases indent static =
       (written @ Get_locked (Collection (col_path col)) (col_locked col) #
          (if col_locked col \<and> do_unlock app then
             Unlock (Collection (col_path col)) #
               (case col_unlock_reply col of
                  Some err \<Rightarrow> [Stdout (indent @ ''  Error: '' @ what lib (to_error err) @ [nl])]
                | None \<Rightarrow> [])
           else [])
          @ [Stdout [nl], Get_items (col_path col)]
          @ fst (print_items lib app (col_items col) (indent @ ''    '') static),
        snd (print_items lib app (col_items col) (indent @ ''    '') static))"
    by (simp add: print_collection_def assms ts Let_def unlock_def written_def
          split: option.splits prod.splits)
  show ?thesis using 1 2 by blast
qed

lemma print_collection_exn:
  "snd (snd (print_collection lib app col reverse_aliases indent static))
     = (if col_label col \<noteq> None \<and> (\<forall>item\<in>set (col_items col). item_label item \<noteq> None)
        then None else Some Bad_optional_access)"
proof (cases "col_label col")
  case None
  then show ?thesis by (simp add: print_collection_absent)
next
  case (Some label)
  from print_collection_shape [OF Some, of lib app reverse_aliases indent static]
  obtain written where
    "snd (snd (print_collection lib app col reverse_aliases indent static))
       = snd (snd (print_items lib app (col_items col) (indent @ ''    '') static))"
    by auto
  then show ?thesis
    using Some by (simp add: print_items_exn)
qed

lemma unlock_policy_collection:
  "unlock_policy (do_unlock app) (fst (print_collection lib app col reverse_aliases indent static))"
proof (cases "col_label col")
  case None
  then show ?thesis by (simp add: print_collection_absent)
next
  case (Some label)
  from print_collection_shape [OF Some, of lib app reverse_aliases indent static]
  obtain written where w: "\<forall>e\<in>set written. is_stdout e"
    and p: "fst (print_collection lib app col reverse_aliases indent static) =
       written @ Get_locked (Collection (col_path col)) (col_locked col) #
          (if col_locked col \<and> do_unlock app then
             Unlock (Collection (col_path col)) #
               (case col_unlock_reply col of
                  Some err \<Rightarrow> [Stdout (indent @ ''  Error: '' @ what lib (to_error err) @ [nl])]
                | None \<Rightarrow> [])
           else [])
          @ [Stdout [nl], Get_items (col_path col)]
          @ fst (print_items lib app (col_items col) (indent @ ''    '') static)"
    by auto
  have s: "unlock_policy (do_unlock app)
             (fst (print_items lib app (col_items col) (indent @ ''    '') static))"
    by (rule unlock_policy_items)
  show ?thesis
    unfolding p unlock_policy_stdout [OF w]
    using s by (auto split: option.splits)
qed

subsection \<open>Lemmas: the whole run\<close>

lemma print_collections_exn:
  "snd (snd (print_collections lib app cols reverse_aliases static))
     = (if \<forall>col\<in>set cols. col_label col \<noteq> None
             \<and> (\<forall>item\<in>set (col_items col). item_label item \<noteq> None)
        then None else Some Bad_optional_access)"
proof (induction cols arbitrary: static)
  case Nil
  then show ?case by simp
next
  case (Cons col cols)
  obtain es st r where p: "print_collection lib app col reverse_aliases ''    '' static = (es, st, r)"
    by (cases "print_collection lib app col reverse_aliases ''    '' static")
  have r: "r = (if col_label col \<noteq> None \<and> (\<forall>item\<in>set (col_items col). item_label item \<noteq> None)
                then None else Some Bad_optional_access)"
    using print_collection_exn [of lib app col reverse_aliases "''    ''" static] by (simp add: p)
  obtain es' st' r' where q: "print_collections lib app cols reverse_aliases st = (es', st', r')"
    by (cases "print_collections lib app cols reverse_aliases st")
  have r': "r' = (if \<forall>col\<in>set cols. col_label col \<noteq> None
                       \<and> (\<forall>item\<in>set (col_items col). item_label item \<noteq> None)
                  then None else Some Bad_optional_access)"
    using Cons.IH [of st] by (simp add: q)
  show ?case
    by (simp add: p q r r')
qed

lemma unlock_policy_collections:
  "unlock_policy (do_unlock app) (fst (print_collections lib app cols reverse_aliases static))"
proof (induction cols arbitrary: static)
  case Nil
  then show ?case by simp
next
  case (Cons col cols)
  obtain es st r where p: "print_collection lib app col reverse_aliases ''    '' static = (es, st, r)"
    by (cases "print_collection lib app col reverse_aliases ''    '' static")
  obtain es' st' r' where q: "print_collections lib app cols reverse_aliases st = (es', st', r')"
    by (cases "print_collections lib app cols reverse_aliases st")
  have 1: "unlock_policy (do_unlock app) es"
    using unlock_policy_collection [of app lib col reverse_aliases "''    ''" static] by (simp add: p)
  have 2: "unlock_policy (do_unlock app) (Stdout [nl] # es')"
    using Cons.IH [of st] by (simp add: q)
  show ?case
    using 1 unlock_policy_append [OF 1 2] by (cases r) (simp_all add: p q)
qed

lemma read_aliases_events:
  "fst (read_aliases service names aliases reverse_aliases) = map Read_alias names"
proof (induction names arbitrary: aliases reverse_aliases)
  case Nil
  then show ?case by simp
next
  case (Cons a names)
  show ?case
  proof (cases "alias_dbus_path service a")
    case None
    obtain es r where q: "read_aliases service names aliases reverse_aliases = (es, r)"
      by (cases "read_aliases service names aliases reverse_aliases")
    with Cons.IH [of aliases reverse_aliases] None show ?thesis by simp
  next
    case (Some path)
    obtain es r where q: "read_aliases service names (map_assign a path aliases)
                            (multimap_emplace path a reverse_aliases) = (es, r)"
      by (cases "read_aliases service names (map_assign a path aliases)
                   (multimap_emplace path a reverse_aliases)")
    with Cons.IH [of "map_assign a path aliases" "multimap_emplace path a reverse_aliases"]
      Some show ?thesis by simp
  qed
qed

text \<open>The run after a successful connection, piece by piece.\<close>

lemma print_shape:
  assumes "service_get_error service = None"
  shows "\<exists>alias_lines. (\<forall>e\<in>set alias_lines. is_stdout e) \<and>
     print lib app service =
       ([Service_get (service_flags app),
         Stdout (''Service'' @ [nl]),
         Stdout (''  Path: '' @ service_path service @ [nl])]
        @ map Read_alias known_aliases
        @ alias_lines
        @ [Stdout [nl], Get_collections]
        @ fst (print_collections lib app (collections service)
                 (snd (snd (read_aliases service known_aliases [] []))) None),
        snd (snd (print_collections lib app (collections service)
                 (snd (snd (read_aliases service known_aliases [] []))) None)))"
proof -
  obtain reads aliases reverse_aliases where
    r: "read_aliases service known_aliases [] [] = (reads, aliases, reverse_aliases)"
    by (cases "read_aliases service known_aliases [] []")
  have reads: "reads = map Read_alias known_aliases"
    using read_aliases_events [of service known_aliases "[]" "[]"] by (simp add: r)
  define alias_lines where
    "alias_lines = (if aliases \<noteq> [] then Stdout (''  Aliases:'' @ [nl]) # print_aliases aliases
                    else [])"
  have 1: "\<forall>e\<in>set alias_lines. is_stdout e"
    using print_aliases_stdout [of aliases] by (auto simp: alias_lines_def)
  have 2: "print lib app service =
       ([Service_get (service_flags app),
         Stdout (''Service'' @ [nl]),
         Stdout (''  Path: '' @ service_path service @ [nl])]
        @ map Read_alias known_aliases
        @ alias_lines
        @ [Stdout [nl], Get_collections]
        @ fst (print_collections lib app (collections service)
                 (snd (snd (read_aliases service known_aliases [] []))) None),
        snd (snd (print_collections lib app (collections service)
                 (snd (snd (read_aliases service known_aliases [] []))) None)))"
    by (simp add: print_def assms r reads alias_lines_def split: prod.splits)
  show ?thesis using 1 2 by blast
qed

lemma print_refused:
  assumes "service_get_error service = Some err"
  shows "print lib app service = ([Service_get (service_flags app)], Some (to_error err))"
  by (simp add: print_def assms)

lemma print_exn:
  "snd (print lib app service)
     = (case service_get_error service of
          Some err \<Rightarrow> Some (to_error err)
        | None \<Rightarrow> if labelled service then None else Some Bad_optional_access)"
proof (cases "service_get_error service")
  case None
  from print_shape [OF None, of lib app]
  have "snd (print lib app service)
          = snd (snd (print_collections lib app (collections service)
                 (snd (snd (read_aliases service known_aliases [] []))) None))"
    by auto
  then show ?thesis
    by (simp add: None print_collections_exn labelled_def)
next
  case (Some err)
  then show ?thesis by (simp add: print_refused)
qed

lemma unlock_policy_print: "unlock_policy (do_unlock app) (fst (print lib app service))"
proof (cases "service_get_error service")
  case None
  from print_shape [OF None, of lib app]
  obtain alias_lines where w: "\<forall>e\<in>set alias_lines. is_stdout e"
    and p: "fst (print lib app service) =
       [Service_get (service_flags app),
         Stdout (''Service'' @ [nl]),
         Stdout (''  Path: '' @ service_path service @ [nl])]
        @ map Read_alias known_aliases
        @ alias_lines
        @ [Stdout [nl], Get_collections]
        @ fst (print_collections lib app (collections service)
                 (snd (snd (read_aliases service known_aliases [] []))) None)"
    by auto
  have s: "unlock_policy (do_unlock app)
             (fst (print_collections lib app (collections service)
                 (snd (snd (read_aliases service known_aliases [] []))) None))"
    by (rule unlock_policy_collections)
  show ?thesis
    unfolding p using s by (simp add: known_aliases_def unlock_policy_stdout [OF w])
next
  case (Some err)
  then show ?thesis by (simp add: print_refused)
qed

lemma on_activate_events:
  "on_activate lib app service =
     fst (print lib app service)
     @ (case snd (print lib app service) of
          None \<Rightarrow> []
        | Some e \<Rightarrow> [Stderr (''Error: '' @ what lib e @ [nl])])"
  by (simp add: on_activate_def split: prod.splits option.splits)

lemma unlock_policy_on_activate: "unlock_policy (do_unlock app) (on_activate lib app service)"
  unfolding on_activate_events
  by (rule unlock_policy_append [OF unlock_policy_print]) (simp split: option.splits)

subsection \<open>Lemmas: secrets that are not requested\<close>

lemma stdout_not_load: "is_stdout e \<Longrightarrow> \<not> is_load_secret e"
  by (cases e) simp_all

lemma print_items_all:
  assumes "\<And>item static. item \<in> set items \<Longrightarrow>
             \<forall>e\<in>set (fst (print_item lib app item indent static)). P e"
    and "P (Stdout [nl])"
  shows "\<forall>e\<in>set (fst (print_items lib app items indent static)). P e"
  using assms(1)
proof (induction items arbitrary: static)
  case Nil
  then show ?case by simp
next
  case (Cons item items)
  obtain es st r where p: "print_item lib app item indent static = (es, st, r)"
    by (cases "print_item lib app item indent static")
  obtain es' st' r' where q: "print_items lib app items indent st = (es', st', r')"
    by (cases "print_items lib app items indent st")
  have 1: "\<forall>e\<in>set es. P e"
    using Cons.prems [of item static] by (simp add: p)
  have 2: "\<forall>e\<in>set es'. P e"
    using Cons.IH [of st] Cons.prems by (auto simp: q)
  show ?case
    using 1 2 assms(2) by (cases r) (auto simp: p q)
qed

lemma print_collections_all:
  assumes "\<And>col static. col \<in> set cols \<Longrightarrow>
             \<forall>e\<in>set (fst (print_collection lib app col reverse_aliases ''    '' static)). P e"
    and "P (Stdout [nl])"
  shows "\<forall>e\<in>set (fst (print_collections lib app cols reverse_aliases static)). P e"
  using assms(1)
proof (induction cols arbitrary: static)
  case Nil
  then show ?case by simp
next
  case (Cons col cols)
  obtain es st r where p: "print_collection lib app col reverse_aliases ''    '' static = (es, st, r)"
    by (cases "print_collection lib app col reverse_aliases ''    '' static")
  obtain es' st' r' where q: "print_collections lib app cols reverse_aliases st = (es', st', r')"
    by (cases "print_collections lib app cols reverse_aliases st")
  have 1: "\<forall>e\<in>set es. P e"
    using Cons.prems [of col static] by (simp add: p)
  have 2: "\<forall>e\<in>set es'. P e"
    using Cons.IH [of st] Cons.prems by (auto simp: q)
  show ?case
    using 1 2 assms(2) by (cases r) (auto simp: p q)
qed

lemma no_load_item:
  assumes "\<not> show_secrets app"
  shows "\<forall>e\<in>set (fst (print_item lib app item indent static)). \<not> is_load_secret e"
proof (cases "item_label item")
  case None
  then show ?thesis by (simp add: print_item_absent)
next
  case (Some label)
  have s: "print_item_secret lib app item indent = []"
    using assms by (simp add: print_item_secret_def)
  from print_item_shape [OF Some, of lib app indent static] show ?thesis
    by (auto simp: s stdout_not_load split: option.splits if_splits)
qed

lemma no_load_items:
  assumes "\<not> show_secrets app"
  shows "\<forall>e\<in>set (fst (print_items lib app items indent static)). \<not> is_load_secret e"
  by (rule print_items_all) (simp_all add: no_load_item [OF assms])

lemma no_load_collection:
  assumes "\<not> show_secrets app"
  shows "\<forall>e\<in>set (fst (print_collection lib app col reverse_aliases indent static)).
           \<not> is_load_secret e"
proof (cases "col_label col")
  case None
  then show ?thesis by (simp add: print_collection_absent)
next
  case (Some label)
  from print_collection_shape [OF Some, of lib app reverse_aliases indent static]
    no_load_items [OF assms, of lib "col_items col" "indent @ ''    ''" static]
  show ?thesis
    by (auto simp: stdout_not_load split: option.splits if_splits)
qed

lemma no_load_collections:
  assumes "\<not> show_secrets app"
  shows "\<forall>e\<in>set (fst (print_collections lib app cols reverse_aliases static)).
           \<not> is_load_secret e"
  by (rule print_collections_all) (simp_all add: no_load_collection [OF assms])

lemma no_load_print:
  assumes "\<not> show_secrets app"
  shows "\<forall>e\<in>set (fst (print lib app service)). \<not> is_load_secret e"
proof (cases "service_get_error service")
  case None
  from print_shape [OF None, of lib app]
    no_load_collections [OF assms, of lib "collections service"
      "snd (snd (read_aliases service known_aliases [] []))" None]
  show ?thesis
    by (auto simp: stdout_not_load known_aliases_def)
next
  case (Some err)
  then show ?thesis by (simp add: print_refused)
qed

lemma no_load_on_activate:
  assumes "\<not> show_secrets app"
  shows "\<forall>e\<in>set (on_activate lib app service). \<not> is_load_secret e"
  using no_load_print [OF assms, of lib service]
  by (auto simp: on_activate_events split: option.splits)

subsection \<open>Lemmas: the traversal goes on\<close>

lemma print_items_step:
  assumes "item_label item \<noteq> None"
  shows "print_items lib app (item # items) indent static =
           (fst (print_item lib app item indent static) @ Stdout [nl] #
              fst (print_items lib app items indent (fst (snd (print_item lib app item indent static)))),
            snd (print_items lib app items indent (fst (snd (print_item lib app item indent static)))))"
proof -
  obtain es st r where p: "print_item lib app item indent static = (es, st, r)"
    by (cases "print_item lib app item indent static")
  have "r = None"
    using print_item_exn [of lib app item indent static] assms by (simp add: p)
  then show ?thesis
    by (simp add: p split: prod.splits)
qed

lemma print_collections_step:
  assumes "col_label col \<noteq> None" and "\<forall>item\<in>set (col_items col). item_label item \<noteq> None"
  shows "print_collections lib app (col # cols) reverse_aliases static =
           (fst (print_collection lib app col reverse_aliases ''    '' static) @ Stdout [nl] #
              fst (print_collections lib app cols reverse_aliases
                     (fst (snd (print_collection lib app col reverse_aliases ''    '' static)))),
            snd (print_collections lib app cols reverse_aliases
                     (fst (snd (print_collection lib app col reverse_aliases ''    '' static)))))"
proof -
  obtain es st r where p: "print_collection lib app col reverse_aliases ''    '' static = (es, st, r)"
    by (cases "print_collection lib app col reverse_aliases ''    '' static")
  have "r = None"
    using print_collection_exn [of lib app col reverse_aliases "''    ''" static] assms
    by (simp add: p)
  then show ?thesis
    by (simp add: p split: prod.splits)
qed

lemma print_item_reads_lock:
  assumes "item_label item \<noteq> None"
  shows "Get_locked (Item (item_path item)) (item_locked item)
           \<in> set (fst (print_item lib app item indent static))"
proof -
  from assms obtain label where l: "item_label item = Some label" by auto
  from print_item_shape [OF l, of lib app indent static] show ?thesis by auto
qed

lemma print_items_visit:
  assumes "\<forall>item\<in>set items. item_label item \<noteq> None" and "item \<in> set items"
  shows "Get_locked (Item (item_path item)) (item_locked item)
           \<in> set (fst (print_items lib app items indent static))"
  using assms
proof (induction items arbitrary: static)
  case Nil
  then show ?case by simp
next
  case (Cons first items)
  have l: "item_label first \<noteq> None" using Cons.prems(1) by simp
  show ?case
  proof (cases "item = first")
    case True
    then show ?thesis
      using print_item_reads_lock [OF l, of lib app indent static]
      by (simp add: print_items_step [OF l] del: print_items.simps)
  next
    case False
    with Cons.prems have "item \<in> set items" and "\<forall>item\<in>set items. item_label item \<noteq> None"
      by simp_all
    from Cons.IH [OF this(2) this(1)] show ?thesis
      by (simp add: print_items_step [OF l] del: print_items.simps)
  qed
qed

lemma print_collection_visit:
  assumes "col_label col \<noteq> None" and "\<forall>item\<in>set (col_items col). item_label item \<noteq> None"
  shows "Get_items (col_path col)
           \<in> set (fst (print_collection lib app col reverse_aliases indent static))
         \<and> (\<forall>item\<in>set (col_items col).
               Get_locked (Item (item_path item)) (item_locked item)
                 \<in> set (fst (print_collection lib app col reverse_aliases indent static)))"
proof -
  from assms(1) obtain label where l: "col_label col = Some label" by auto
  from print_collection_shape [OF l, of lib app reverse_aliases indent static]
  obtain before where
    p: "fst (print_collection lib app col reverse_aliases indent static) =
          before @ [Stdout [nl], Get_items (col_path col)]
            @ fst (print_items lib app (col_items col) (indent @ ''    '') static)"
    by auto
  have "Get_locked (Item (item_path item)) (item_locked item)
             \<in> set (fst (print_collection lib app col reverse_aliases indent static))"
    if "item \<in> set (col_items col)" for item
    using print_items_visit [OF assms(2) that, of lib app "indent @ ''    ''" static]
    by (simp add: p)
  then show ?thesis
    by (simp add: p)
qed

lemma print_collections_visit:
  assumes "\<forall>col\<in>set cols. col_label col \<noteq> None
             \<and> (\<forall>item\<in>set (col_items col). item_label item \<noteq> None)"
    and "col \<in> set cols"
  shows "Get_items (col_path col)
           \<in> set (fst (print_collections lib app cols reverse_aliases static))
         \<and> (\<forall>item\<in>set (col_items col).
               Get_locked (Item (item_path item)) (item_locked item)
                 \<in> set (fst (print_collections lib app cols reverse_aliases static)))"
  using assms
proof (induction cols arbitrary: static)
  case Nil
  then show ?case by simp
next
  case (Cons first cols)
  have l: "col_label first \<noteq> None" "\<forall>item\<in>set (col_items first). item_label item \<noteq> None"
    using Cons.prems(1) by simp_all
  show ?case
  proof (cases "col = first")
    case True
    then show ?thesis
      using print_collection_visit [OF l, of lib app reverse_aliases "''    ''" static]
      by (simp add: print_collections_step [OF l] del: print_collections.simps)
  next
    case False
    with Cons.prems have "col \<in> set cols"
      and "\<forall>col\<in>set cols. col_label col \<noteq> None
             \<and> (\<forall>item\<in>set (col_items col). item_label item \<noteq> None)"
      by simp_all
    from Cons.IH [OF this(2) this(1)] show ?thesis
      by (simp add: print_collections_step [OF l] del: print_collections.simps)
  qed
qed

lemma on_activate_visit:
  assumes "service_get_error service = None" and "labelled service"
    and "col \<in> set (collections service)"
  shows "Get_items (col_path col) \<in> set (on_activate lib app service)
         \<and> (\<forall>item\<in>set (col_items col).
               Get_locked (Item (item_path item)) (item_locked item)
                 \<in> set (on_activate lib app service))"
proof -
  have all: "\<forall>col\<in>set (collections service). col_label col \<noteq> None
             \<and> (\<forall>item\<in>set (col_items col). item_label item \<noteq> None)"
    using assms(2) by (simp add: labelled_def)
  from print_shape [OF assms(1), of lib app]
  obtain before where
    p: "fst (print lib app service) =
          before @ fst (print_collections lib app (collections service)
                 (snd (snd (read_aliases service known_aliases [] []))) None)"
    by (metis append.assoc fst_conv)
  show ?thesis
    using print_collections_visit [OF all assms(3), of lib app
        "snd (snd (read_aliases service known_aliases [] []))" None]
    by (simp add: on_activate_events p)
qed

subsection \<open>Lemmas: nothing goes to standard error before the end\<close>

lemma stdout_not_stderr: "is_stdout e \<Longrightarrow> \<not> is_stderr e"
  by (cases e) simp_all

lemma no_stderr_item_secret: "\<forall>e\<in>set (print_item_secret lib app item indent). \<not> is_stderr e"
  by (simp add: print_item_secret_def print_secret_value_def split: option.splits)

lemma no_stderr_item: "\<forall>e\<in>set (fst (print_item lib app item indent static)). \<not> is_stderr e"
proof (cases "item_label item")
  case None
  then show ?thesis by (simp add: print_item_absent)
next
  case (Some label)
  from print_item_shape [OF Some, of lib app indent static]
    no_stderr_item_secret [of lib app item indent]
  show ?thesis
    by (auto simp: stdout_not_stderr split: option.splits if_splits)
qed

lemma no_stderr_items: "\<forall>e\<in>set (fst (print_items lib app items indent static)). \<not> is_stderr e"
  by (rule print_items_all) (simp_all add: no_stderr_item)

lemma no_stderr_collection:
  "\<forall>e\<in>set (fst (print_collection lib app col reverse_aliases indent static)). \<not> is_stderr e"
proof (cases "col_label col")
  case None
  then show ?thesis by (simp add: print_collection_absent)
next
  case (Some label)
  from print_collection_shape [OF Some, of lib app reverse_aliases indent static]
    no_stderr_items [of lib app "col_items col" "indent @ ''    ''" static]
  show ?thesis
    by (auto simp: stdout_not_stderr split: option.splits if_splits)
qed

lemma no_stderr_collections:
  "\<forall>e\<in>set (fst (print_collections lib app cols reverse_aliases static)). \<not> is_stderr e"
  by (rule print_collections_all) (simp_all add: no_stderr_collection)

lemma no_stderr_print: "\<forall>e\<in>set (fst (print lib app service)). \<not> is_stderr e"
proof (cases "service_get_error service")
  case None
  from print_shape [OF None, of lib app]
    no_stderr_collections [of lib app "collections service"
      "snd (snd (read_aliases service known_aliases [] []))" None]
  show ?thesis
    by (auto simp: stdout_not_stderr known_aliases_def)
next
  case (Some err)
  then show ?thesis by (simp add: print_refused)
qed

subsection \<open>Lemmas: a failed unlock\<close>

lemma print_item_unlock_failed:
  assumes "item_label item = Some label" "do_unlock app" "item_locked item"
    "item_unlock_reply item = Some err"
  shows "\<exists>written static'. (\<forall>e\<in>set written. is_stdout e) \<and>
     print_item lib app item indent static =
       (written @ [Get_locked (Item (item_path item)) True, Unlock (Item (item_path item)),
                   Stdout (indent @ ''  Error: '' @ what lib (to_error err) @ [nl])],
        static', None)"
  using print_item_shape [OF assms(1), of lib app indent static] assms(2-4) by simp

lemma print_collection_unlock_failed:
  assumes "col_label col = Some label" "do_unlock app" "col_locked col"
    "col_unlock_reply col = Some err"
  shows "\<exists>written. (\<forall>e\<in>set written. is_stdout e) \<and>
     print_collection lib app col reverse_aliases indent static =
       (written @ [Get_locked (Collection (col_path col)) True, Unlock (Collection (col_path col)),
                   Stdout (indent @ ''  Error: '' @ what lib (to_error err) @ [nl]),
                   Stdout [nl], Get_items (col_path col)]
          @ fst (print_items lib app (col_items col) (indent @ ''    '') static),
        snd (print_items lib app (col_items col) (indent @ ''    '') static))"
  using print_collection_shape [OF assms(1), of lib app reverse_aliases indent static] assms(2-4)
  by simp

lemma item_unlock_failed_local:
  assumes a: "item_label item \<noteq> None \<and> do_unlock app \<and> item_locked item
             \<and> item_unlock_reply item \<noteq> None"
  shows "(\<forall>e\<in>set (fst (print_item lib app item indent static)). \<not> is_load_secret e)
          \<and> snd (snd (print_item lib app item indent static)) = None
          \<and> fst (print_items lib app (item # items) indent static)
              = fst (print_item lib app item indent static) @ Stdout [nl] #
                fst (print_items lib app items indent
                       (fst (snd (print_item lib app item indent static))))"
proof -
  from a obtain label err where l: "item_label item = Some label"
    and e: "item_unlock_reply item = Some err" by auto
  from a have du: "do_unlock app" and lk: "item_locked item" by simp_all
  from print_item_unlock_failed [OF l du lk e, of lib indent static]
  obtain written static' where w: "\<forall>e\<in>set written. is_stdout e"
    and p: "print_item lib app item indent static =
       (written @ [Get_locked (Item (item_path item)) True, Unlock (Item (item_path item)),
                   Stdout (indent @ ''  Error: '' @ what lib (to_error err) @ [nl])],
        static', None)"
    by blast
  have x: "\<forall>e\<in>set (fst (print_item lib app item indent static)). \<not> is_load_secret e"
    using w by (auto simp: p stdout_not_load)
  have y: "snd (snd (print_item lib app item indent static)) = None"
    by (simp add: p)
  have z: "fst (print_items lib app (item # items) indent static)
              = fst (print_item lib app item indent static) @ Stdout [nl] #
                fst (print_items lib app items indent
                       (fst (snd (print_item lib app item indent static))))"
    by (simp add: p split: prod.splits)
  show ?thesis by (rule conjI [OF x conjI [OF y z]])
qed

lemma collection_unlock_failed_local:
  assumes a: "col_label col \<noteq> None \<and> do_unlock app \<and> col_locked col
             \<and> col_unlock_reply col \<noteq> None"
  shows "suffix (Get_items (col_path col) #
                 fst (print_items lib app (col_items col) (indent @ ''    '') static))
           (fst (print_collection lib app col reverse_aliases indent static))
          \<and> snd (snd (print_collection lib app col reverse_aliases indent static))
              = snd (snd (print_items lib app (col_items col) (indent @ ''    '') static))"
  proof -
    from a obtain label err where l: "col_label col = Some label"
      and e: "col_unlock_reply col = Some err" by auto
    from a have du: "do_unlock app" and lk: "col_locked col" by simp_all
    from print_collection_unlock_failed [OF l du lk e, of lib reverse_aliases indent static]
    obtain written where
      p: "print_collection lib app col reverse_aliases indent static =
       (written @ [Get_locked (Collection (col_path col)) True, Unlock (Collection (col_path col)),
                   Stdout (indent @ ''  Error: '' @ what lib (to_error err) @ [nl]),
                   Stdout [nl], Get_items (col_path col)]
          @ fst (print_items lib app (col_items col) (indent @ ''    '') static),
        snd (print_items lib app (col_items col) (indent @ ''    '') static))"
      by blast
    have "fst (print_collection lib app col reverse_aliases indent static)
          = (written @ [Get_locked (Collection (col_path col)) True,
                        Unlock (Collection (col_path col)),
                        Stdout (indent @ ''  Error: '' @ what lib (to_error err) @ [nl]),
                        Stdout [nl]])
            @ Get_items (col_path col) #
              fst (print_items lib app (col_items col) (indent @ ''    '') static)"
      by (simp add: p)
    then have x: "suffix (Get_items (col_path col) #
                 fst (print_items lib app (col_items col) (indent @ ''    '') static))
           (fst (print_collection lib app col reverse_aliases indent static))"
      by (rule suffixI)
    have y: "snd (snd (print_collection lib app col reverse_aliases indent static))
              = snd (snd (print_items lib app (col_items col) (indent @ ''    '') static))"
      by (simp add: p)
    show ?thesis by (rule conjI [OF x y])
  qed

subsection \<open>Lemmas: fatal and inline errors\<close>

lemma connection_refused_is_fatal:
  assumes "service_get_error service = Some err"
  shows "on_activate lib app service
           = [Service_get (service_flags app), Stderr (''Error: '' @ what lib (to_error err) @ [nl])]"
  by (simp add: on_activate_events print_refused [OF assms])

lemma item_unlock_error_inline:
  assumes a: "item_label item \<noteq> None \<and> do_unlock app \<and> item_locked item
             \<and> item_unlock_reply item = Some err"
  shows "suffix [Get_locked (Item (item_path item)) True, Unlock (Item (item_path item)),
                 Stdout (indent @ ''  Error: '' @ what lib (to_error err) @ [nl])]
           (fst (print_item lib app item indent static))
         \<and> snd (snd (print_item lib app item indent static)) = None"
proof -
  from a obtain label where l: "item_label item = Some label" by auto
  from a have du: "do_unlock app" and lk: "item_locked item"
    and e: "item_unlock_reply item = Some err" by simp_all
  from print_item_unlock_failed [OF l du lk e, of lib indent static]
  obtain written static' where
    p: "print_item lib app item indent static =
       (written @ [Get_locked (Item (item_path item)) True, Unlock (Item (item_path item)),
                   Stdout (indent @ ''  Error: '' @ what lib (to_error err) @ [nl])],
        static', None)"
    by blast
  have "fst (print_item lib app item indent static) =
       written @ [Get_locked (Item (item_path item)) True, Unlock (Item (item_path item)),
                   Stdout (indent @ ''  Error: '' @ what lib (to_error err) @ [nl])]"
    by (simp add: p)
  then have x: "suffix [Get_locked (Item (item_path item)) True, Unlock (Item (item_path item)),
                 Stdout (indent @ ''  Error: '' @ what lib (to_error err) @ [nl])]
           (fst (print_item lib app item indent static))"
    by (rule suffixI)
  have y: "snd (snd (print_item lib app item indent static)) = None"
    by (simp add: p)
  show ?thesis by (rule conjI [OF x y])
qed

lemma item_load_error_inline:
  assumes a: "item_label item \<noteq> None \<and> show_secrets app
             \<and> \<not> (do_unlock app \<and> item_locked item \<and> item_unlock_reply item \<noteq> None)
             \<and> item_load_secret_reply item = Some err"
  shows "suffix [Load_secret (item_path item),
                 Stdout (indent @ ''  Error: '' @ what lib (to_error err) @ [nl])]
           (fst (print_item lib app item indent static))
         \<and> snd (snd (print_item lib app item indent static)) = None"
proof -
  from a obtain label where l: "item_label item = Some label" by auto
  have s: "print_item_secret lib app item indent
             = [Load_secret (item_path item),
                Stdout (indent @ ''  Error: '' @ what lib (to_error err) @ [nl])]"
    using a by (simp add: print_item_secret_def)
  from print_item_shape [OF l, of lib app indent static]
  obtain written static' where
    p: "print_item lib app item indent static =
       (written @ Get_locked (Item (item_path item)) (item_locked item) #
          (if item_locked item \<and> do_unlock app then
             Unlock (Item (item_path item)) #
               (case item_unlock_reply item of
                  Some err \<Rightarrow> [Stdout (indent @ ''  Error: '' @ what lib (to_error err) @ [nl])]
                | None \<Rightarrow> print_item_secret lib app item indent)
           else print_item_secret lib app item indent), static', None)"
    by blast
  have "\<exists>before. fst (print_item lib app item indent static)
          = before @ print_item_secret lib app item indent"
  proof (cases "item_locked item \<and> do_unlock app")
    case True
    with a have n: "item_unlock_reply item = None" by auto
    have "fst (print_item lib app item indent static)
            = (written @ [Get_locked (Item (item_path item)) (item_locked item),
                          Unlock (Item (item_path item))])
              @ print_item_secret lib app item indent"
      using True by (simp add: p n)
    then show ?thesis ..
  next
    case False
    have "fst (print_item lib app item indent static)
            = (written @ [Get_locked (Item (item_path item)) (item_locked item)])
              @ print_item_secret lib app item indent"
      using False by (auto simp: p)
    then show ?thesis ..
  qed
  then have x: "suffix [Load_secret (item_path item),
                 Stdout (indent @ ''  Error: '' @ what lib (to_error err) @ [nl])]
           (fst (print_item lib app item indent static))"
    by (simp add: s suffix_def)
  have y: "snd (snd (print_item lib app item indent static)) = None"
    by (simp add: p)
  show ?thesis by (rule conjI [OF x y])
qed

lemma collection_unlock_error_inline:
  assumes a: "col_label col \<noteq> None \<and> do_unlock app \<and> col_locked col
             \<and> col_unlock_reply col = Some err"
  shows "Stdout (indent @ ''  Error: '' @ what lib (to_error err) @ [nl])
           \<in> set (fst (print_collection lib app col reverse_aliases indent static))
         \<and> snd (snd (print_collection lib app col reverse_aliases indent static))
             = snd (snd (print_items lib app (col_items col) (indent @ ''    '') static))"
proof -
  from a obtain label where l: "col_label col = Some label" by auto
  from a have du: "do_unlock app" and lk: "col_locked col"
    and e: "col_unlock_reply col = Some err" by simp_all
  from print_collection_unlock_failed [OF l du lk e, of lib reverse_aliases indent static]
  obtain written where
    p: "print_collection lib app col reverse_aliases indent static =
       (written @ [Get_locked (Collection (col_path col)) True, Unlock (Collection (col_path col)),
                   Stdout (indent @ ''  Error: '' @ what lib (to_error err) @ [nl]),
                   Stdout [nl], Get_items (col_path col)]
          @ fst (print_items lib app (col_items col) (indent @ ''    '') static),
        snd (print_items lib app (col_items col) (indent @ ''    '') static))"
    by blast
  show ?thesis by (simp add: p)
qed

lemma labelled_run_completes:
  assumes a: "service_get_error service = None \<and> labelled service"
  shows "snd (print lib app service) = None
         \<and> (\<forall>e\<in>set (on_activate lib app service). \<not> is_stderr e)"
proof -
  have x: "snd (print lib app service) = None"
    using a by (simp add: print_exn)
  have y: "\<forall>e\<in>set (on_activate lib app service). \<not> is_stderr e"
    using no_stderr_print [of lib app service] by (simp add: on_activate_events x)
  show ?thesis by (rule conjI [OF x y])
qed

subsection \<open>Lemmas: a missing label\<close>

lemma collection_without_label_throws:
  assumes "col_label col = None"
  shows "print_collection lib app col reverse_aliases indent static
           = ([Stdout (indent @ ''Collection: '' @ [dq])], static, Some Bad_optional_access)
         \<and> print_collections lib app (col # cols) reverse_aliases static
           = ([Stdout (''    '' @ ''Collection: '' @ [dq])], static, Some Bad_optional_access)"
  by (simp add: print_collection_absent [OF assms])

lemma item_without_label_throws:
  assumes "item_label item = None"
  shows "print_item lib app item indent static
           = ([Stdout (indent @ ''Item: '' @ [dq])], static, Some Bad_optional_access)
         \<and> print_items lib app (item # items) indent static
           = ([Stdout (indent @ ''Item: '' @ [dq])], static, Some Bad_optional_access)"
  by (simp add: print_item_absent [OF assms])

lemma item_with_label_returns:
  assumes "item_label item \<noteq> None"
  shows "snd (snd (print_item lib app item indent static)) = None"
  using assms by (simp add: print_item_exn)

lemma collection_with_labels_returns:
  assumes "col_label col \<noteq> None \<and> (\<forall>item\<in>set (col_items col). item_label item \<noteq> None)"
  shows "snd (snd (print_collection lib app col reverse_aliases indent static)) = None"
  using assms by (simp add: print_collection_exn)

lemma missing_label_is_fatal:
  assumes a: "service_get_error service = None \<and> \<not> labelled service"
  shows "snd (print lib app service) = Some Bad_optional_access
         \<and> suffix [Stderr (''Error: '' @ bad_optional_access_what lib @ [nl])]
              (on_activate lib app service)"
proof -
  have x: "snd (print lib app service) = Some Bad_optional_access"
    using a by (simp add: print_exn)
  have "on_activate lib app service
          = fst (print lib app service) @ [Stderr (''Error: '' @ bad_optional_access_what lib @ [nl])]"
    by (simp add: on_activate_events x)
  then have y: "suffix [Stderr (''Error: '' @ bad_optional_access_what lib @ [nl])]
              (on_activate lib app service)"
    by (rule suffixI)
  show ?thesis by (rule conjI [OF x y])
qed

subsection \<open>Lemmas: the lock state in a block\<close>

lemma stdout_text_append [simp]: "stdout_text (es @ es') = stdout_text es @ stdout_text es'"
  by (induction es rule: stdout_text.induct) simp_all

lemma filter_none: "\<forall>e\<in>set es. \<not> P e \<Longrightarrow> filter P es = []"
  by (induction es) simp_all

lemma stdout_concerns_nothing: "is_stdout e \<Longrightarrow> \<not> concerns target e"
  by (cases e) simp_all

lemma item_secret_concerns_nothing:
  "\<forall>e\<in>set (print_item_secret lib app item indent). \<not> concerns target e"
  by (simp add: print_item_secret_def print_secret_value_def split: option.splits)

lemma item_lock_events:
  "filter (concerns (Item (item_path item))) (fst (print_item lib app item indent static))
     = (if item_label item = None then []
        else Get_locked (Item (item_path item)) (item_locked item) #
             (if item_locked item \<and> do_unlock app then [Unlock (Item (item_path item))] else []))"
proof (cases "item_label item")
  case None
  then show ?thesis by (simp add: print_item_absent)
next
  case (Some label)
  from print_item_shape [OF Some, of lib app indent static]
  obtain written static' where w: "\<forall>e\<in>set written. is_stdout e"
    and p: "fst (print_item lib app item indent static) =
       written @ Get_locked (Item (item_path item)) (item_locked item) #
          (if item_locked item \<and> do_unlock app then
             Unlock (Item (item_path item)) #
               (case item_unlock_reply item of
                  Some err \<Rightarrow> [Stdout (indent @ ''  Error: '' @ what lib (to_error err) @ [nl])]
                | None \<Rightarrow> print_item_secret lib app item indent)
           else print_item_secret lib app item indent)"
    by auto
  have 1: "filter (concerns (Item (item_path item))) written = []"
    using w by (auto intro!: filter_none simp: stdout_concerns_nothing)
  have 2: "filter (concerns (Item (item_path item))) (print_item_secret lib app item indent) = []"
    by (rule filter_none [OF item_secret_concerns_nothing])
  show ?thesis
    by (simp add: p 1 2 Some split: option.splits)
qed

lemma item_concerns_no_collection:
  "\<forall>e\<in>set (fst (print_item lib app item indent static)). \<not> concerns (Collection path) e"
proof (cases "item_label item")
  case None
  then show ?thesis by (simp add: print_item_absent)
next
  case (Some label)
  from print_item_shape [OF Some, of lib app indent static]
    item_secret_concerns_nothing [of lib app item indent "Collection path"]
  show ?thesis
    by (auto simp: stdout_concerns_nothing split: option.splits if_splits)
qed

lemma items_concern_no_collection:
  "\<forall>e\<in>set (fst (print_items lib app items indent static)). \<not> concerns (Collection path) e"
  by (rule print_items_all) (simp_all add: item_concerns_no_collection)

lemma collection_lock_events:
  "filter (concerns (Collection (col_path col)))
     (fst (print_collection lib app col reverse_aliases indent static))
     = (if col_label col = None then []
        else Get_locked (Collection (col_path col)) (col_locked col) #
             (if col_locked col \<and> do_unlock app then [Unlock (Collection (col_path col))] else []))"
proof (cases "col_label col")
  case None
  then show ?thesis by (simp add: print_collection_absent)
next
  case (Some label)
  from print_collection_shape [OF Some, of lib app reverse_aliases indent static]
  obtain written where w: "\<forall>e\<in>set written. is_stdout e"
    and p: "fst (print_collection lib app col reverse_aliases indent static) =
       written @ Get_locked (Collection (col_path col)) (col_locked col) #
          (if col_locked col \<and> do_unlock app then
             Unlock (Collection (col_path col)) #
               (case col_unlock_reply col of
                  Some err \<Rightarrow> [Stdout (indent @ ''  Error: '' @ what lib (to_error err) @ [nl])]
                | None \<Rightarrow> [])
           else [])
          @ [Stdout [nl], Get_items (col_path col)]
          @ fst (print_items lib app (col_items col) (indent @ ''    '') static)"
    by auto
  have 1: "filter (concerns (Collection (col_path col))) written = []"
    using w by (auto intro!: filter_none simp: stdout_concerns_nothing)
  have 2: "filter (concerns (Collection (col_path col)))
             (fst (print_items lib app (col_items col) (indent @ ''    '') static)) = []"
    by (rule filter_none [OF items_concern_no_collection])
  show ?thesis
    by (simp add: p 1 2 Some split: option.splits)
qed

subsection \<open>Lemmas: the aliases\<close>

lemma set_multimap_emplace: "set (multimap_emplace k v m) = insert (k, v) (set m)"
  by (induction m) (auto split: if_splits)

lemma set_equal_range: "set (equal_range m k) = {(k', v). (k', v) \<in> set m \<and> k' = k}"
  by (induction m) (auto split: if_splits)

lemma read_aliases_forward:
  "map_of (fst (snd (read_aliases service names aliases reverse_aliases))) a
     = (if a \<in> set names \<and> alias_dbus_path service a \<noteq> None
        then alias_dbus_path service a else map_of aliases a)"
proof (induction names arbitrary: aliases reverse_aliases)
  case Nil
  then show ?case by simp
next
  case (Cons n names)
  show ?case
  proof (cases "alias_dbus_path service n")
    case None
    obtain es r where q: "read_aliases service names aliases reverse_aliases = (es, r)"
      by (cases "read_aliases service names aliases reverse_aliases")
    have "map_of (fst (snd (read_aliases service (n # names) aliases reverse_aliases))) a
            = map_of (fst (snd (read_aliases service names aliases reverse_aliases))) a"
      by (simp add: None q)
    also have "\<dots> = (if a \<in> set names \<and> alias_dbus_path service a \<noteq> None
             then alias_dbus_path service a else map_of aliases a)"
      by (rule Cons.IH)
    also have "\<dots> = (if a \<in> set (n # names) \<and> alias_dbus_path service a \<noteq> None
             then alias_dbus_path service a else map_of aliases a)"
      using None by auto
    finally show ?thesis .
  next
    case (Some path)
    obtain es r where q: "read_aliases service names (map_assign n path aliases)
                            (multimap_emplace path n reverse_aliases) = (es, r)"
      by (cases "read_aliases service names (map_assign n path aliases)
                   (multimap_emplace path n reverse_aliases)")
    have "map_of (fst (snd (read_aliases service (n # names) aliases reverse_aliases))) a
            = map_of (fst (snd (read_aliases service names (map_assign n path aliases)
                            (multimap_emplace path n reverse_aliases)))) a"
      by (simp add: Some q)
    also have "\<dots> = (if a \<in> set names \<and> alias_dbus_path service a \<noteq> None
             then alias_dbus_path service a else map_of (map_assign n path aliases) a)"
      by (rule Cons.IH)
    also have "\<dots> = (if a \<in> set (n # names) \<and> alias_dbus_path service a \<noteq> None
             then alias_dbus_path service a else map_of aliases a)"
      using Some by (auto simp: map_of_map_assign)
    finally show ?thesis .
  qed
qed

lemma read_aliases_reverse:
  "set (snd (snd (read_aliases service names aliases reverse_aliases)))
     = set reverse_aliases
       \<union> {(path, a). a \<in> set names \<and> alias_dbus_path service a = Some path}"
proof (induction names arbitrary: aliases reverse_aliases)
  case Nil
  then show ?case by simp
next
  case (Cons n names)
  show ?case
  proof (cases "alias_dbus_path service n")
    case None
    obtain es r where q: "read_aliases service names aliases reverse_aliases = (es, r)"
      by (cases "read_aliases service names aliases reverse_aliases")
    have "set (snd (snd (read_aliases service (n # names) aliases reverse_aliases)))
            = set (snd (snd (read_aliases service names aliases reverse_aliases)))"
      by (simp add: None q)
    also have "\<dots> = set reverse_aliases
       \<union> {(path, a). a \<in> set names \<and> alias_dbus_path service a = Some path}"
      by (rule Cons.IH)
    also have "\<dots> = set reverse_aliases
       \<union> {(path, a). a \<in> set (n # names) \<and> alias_dbus_path service a = Some path}"
      using None by auto
    finally show ?thesis .
  next
    case (Some path)
    obtain es r where q: "read_aliases service names (map_assign n path aliases)
                            (multimap_emplace path n reverse_aliases) = (es, r)"
      by (cases "read_aliases service names (map_assign n path aliases)
                   (multimap_emplace path n reverse_aliases)")
    have "set (snd (snd (read_aliases service (n # names) aliases reverse_aliases)))
            = set (snd (snd (read_aliases service names (map_assign n path aliases)
                            (multimap_emplace path n reverse_aliases))))"
      by (simp add: Some q)
    also have "\<dots> = set (multimap_emplace path n reverse_aliases)
       \<union> {(path, a). a \<in> set names \<and> alias_dbus_path service a = Some path}"
      by (rule Cons.IH)
    also have "\<dots> = set reverse_aliases
       \<union> {(path, a). a \<in> set (n # names) \<and> alias_dbus_path service a = Some path}"
      using Some by (auto simp: set_multimap_emplace)
    finally show ?thesis .
  qed
qed

lemma print_alias_lines_member:
  "(path, a) \<in> set entries \<Longrightarrow>
     Stdout (indent @ ''  Alias: '' @ a @ [nl]) \<in> set (print_alias_lines indent entries)"
  by (induction indent entries rule: print_alias_lines.induct) auto

lemma collection_lists_alias:
  assumes "col_label col \<noteq> None" and "(col_path col, a) \<in> set reverse_aliases"
  shows "Stdout (indent @ ''  Alias: '' @ a @ [nl])
           \<in> set (fst (print_collection lib app col reverse_aliases indent static))"
proof -
  from assms(1) obtain label where l: "col_label col = Some label" by auto
  obtain ts where ts: "print_timestamps lib indent (col_created col) (col_modified col) = (ts, None)"
    using print_timestamps_shape by blast
  obtain its st r where
    its: "print_items lib app (col_items col) (indent @ ''    '') static = (its, st, r)"
    by (cases "print_items lib app (col_items col) (indent @ ''    '') static")
  have m: "(col_path col, a) \<in> set (equal_range reverse_aliases (col_path col))"
    using assms(2) by (simp add: set_equal_range)
  have x: "Stdout (indent @ ''  Alias: '' @ a @ [nl])
               \<in> set (print_alias_lines indent (equal_range reverse_aliases (col_path col)))"
    using m by (rule print_alias_lines_member)
  have e: "fst (print_collection lib app col reverse_aliases indent static)
          = [Stdout (indent @ ''Collection: '' @ [dq] @ label @ [dq, nl]),
             Stdout (indent @ ''  Path: '' @ col_path col @ [nl])]
            @ print_alias_lines indent (equal_range reverse_aliases (col_path col))
            @ (ts @ Get_locked (Collection (col_path col)) (col_locked col) #
                 (if col_locked col \<and> do_unlock app then
                    (case unlock (Collection (col_path col)) (col_unlock_reply col) of
                       (us, Some error) \<Rightarrow>
                         us @ [Stdout (indent @ ''  Error: '' @ what lib error @ [nl])]
                     | (us, None) \<Rightarrow> us)
                  else [])
                 @ [Stdout [nl], Get_items (col_path col)] @ its)"
    by (simp add: print_collection_def l ts its Let_def)
  show ?thesis
    unfolding e set_append using x by blast
qed

lemma print_collections_contains:
  assumes "\<forall>col\<in>set cols. col_label col \<noteq> None
             \<and> (\<forall>item\<in>set (col_items col). item_label item \<noteq> None)"
    and "col \<in> set cols"
  shows "\<exists>st. set (fst (print_collection lib app col reverse_aliases ''    '' st))
               \<subseteq> set (fst (print_collections lib app cols reverse_aliases static))"
  using assms
proof (induction cols arbitrary: static)
  case Nil
  then show ?case by simp
next
  case (Cons first cols)
  have l: "col_label first \<noteq> None" "\<forall>item\<in>set (col_items first). item_label item \<noteq> None"
    using Cons.prems(1) by simp_all
  show ?case
  proof (cases "col = first")
    case True
    have "set (fst (print_collection lib app col reverse_aliases ''    '' static))
               \<subseteq> set (fst (print_collections lib app (first # cols) reverse_aliases static))"
      using True by (auto simp: print_collections_step [OF l] simp del: print_collections.simps)
    then show ?thesis ..
  next
    case False
    with Cons.prems have "col \<in> set cols"
      and "\<forall>col\<in>set cols. col_label col \<noteq> None
             \<and> (\<forall>item\<in>set (col_items col). item_label item \<noteq> None)"
      by simp_all
    from Cons.IH [OF this(2) this(1),
        of "fst (snd (print_collection lib app first reverse_aliases ''    '' static))"]
    obtain st where
      "set (fst (print_collection lib app col reverse_aliases ''    '' st))
         \<subseteq> set (fst (print_collections lib app cols reverse_aliases
                (fst (snd (print_collection lib app first reverse_aliases ''    '' static)))))"
      by blast
    then have "set (fst (print_collection lib app col reverse_aliases ''    '' st))
               \<subseteq> set (fst (print_collections lib app (first # cols) reverse_aliases static))"
      by (auto simp: print_collections_step [OF l] simp del: print_collections.simps)
    then show ?thesis ..
  qed
qed

subsection \<open>Lemmas: the aliases in a run\<close>

lemma stdout_not_read_alias: "is_stdout e \<Longrightarrow> \<not> is_read_alias e"
  by (cases e) simp_all

lemma no_read_alias_item_secret:
  "\<forall>e\<in>set (print_item_secret lib app item indent). \<not> is_read_alias e"
  by (simp add: print_item_secret_def print_secret_value_def split: option.splits)

lemma no_read_alias_item:
  "\<forall>e\<in>set (fst (print_item lib app item indent static)). \<not> is_read_alias e"
proof (cases "item_label item")
  case None
  then show ?thesis by (simp add: print_item_absent)
next
  case (Some label)
  from print_item_shape [OF Some, of lib app indent static]
    no_read_alias_item_secret [of lib app item indent]
  show ?thesis
    by (auto simp: stdout_not_read_alias split: option.splits if_splits)
qed

lemma no_read_alias_items:
  "\<forall>e\<in>set (fst (print_items lib app items indent static)). \<not> is_read_alias e"
  by (rule print_items_all) (simp_all add: no_read_alias_item)

lemma no_read_alias_collection:
  "\<forall>e\<in>set (fst (print_collection lib app col reverse_aliases indent static)).
     \<not> is_read_alias e"
proof (cases "col_label col")
  case None
  then show ?thesis by (simp add: print_collection_absent)
next
  case (Some label)
  from print_collection_shape [OF Some, of lib app reverse_aliases indent static]
    no_read_alias_items [of lib app "col_items col" "indent @ ''    ''" static]
  show ?thesis
    by (auto simp: stdout_not_read_alias split: option.splits if_splits)
qed

lemma no_read_alias_collections:
  "\<forall>e\<in>set (fst (print_collections lib app cols reverse_aliases static)). \<not> is_read_alias e"
  by (rule print_collections_all) (simp_all add: no_read_alias_collection)

lemma aliases_read_after_header:
  assumes "service_get_error service = None"
  shows "take 6 (on_activate lib app service)
           = [Service_get (service_flags app),
              Stdout (''Service'' @ [nl]),
              Stdout (''  Path: '' @ service_path service @ [nl]),
              Read_alias ''default'', Read_alias ''login'', Read_alias ''session'']
         \<and> (\<forall>e\<in>set (drop 6 (on_activate lib app service)). \<not> is_read_alias e)"
proof -
  from print_shape [OF assms, of lib app]
  obtain alias_lines where w: "\<forall>e\<in>set alias_lines. is_stdout e"
    and p: "fst (print lib app service) =
       [Service_get (service_flags app),
         Stdout (''Service'' @ [nl]),
         Stdout (''  Path: '' @ service_path service @ [nl])]
        @ map Read_alias known_aliases
        @ alias_lines
        @ [Stdout [nl], Get_collections]
        @ fst (print_collections lib app (collections service)
                 (snd (snd (read_aliases service known_aliases [] []))) None)"
    by auto
  have c: "\<forall>e\<in>set (fst (print_collections lib app (collections service)
                 (snd (snd (read_aliases service known_aliases [] []))) None)).
             \<not> is_read_alias e"
    by (rule no_read_alias_collections)
  have x: "take 6 (on_activate lib app service)
           = [Service_get (service_flags app),
              Stdout (''Service'' @ [nl]),
              Stdout (''  Path: '' @ service_path service @ [nl]),
              Read_alias ''default'', Read_alias ''login'', Read_alias ''session'']"
    by (simp add: on_activate_events p known_aliases_def)
  have "drop 6 (on_activate lib app service)
          = alias_lines @ [Stdout [nl], Get_collections]
            @ fst (print_collections lib app (collections service)
                 (snd (snd (read_aliases service known_aliases [] []))) None)
            @ (case snd (print lib app service) of
                 None \<Rightarrow> []
               | Some e \<Rightarrow> [Stderr (''Error: '' @ what lib e @ [nl])])"
    by (simp add: on_activate_events p known_aliases_def)
  then have y: "\<forall>e\<in>set (drop 6 (on_activate lib app service)). \<not> is_read_alias e"
    using w c by (auto simp: stdout_not_read_alias split: option.splits)
  show ?thesis by (rule conjI [OF x y])
qed

lemma maps_complete:
  "map_of (fst (snd (read_aliases service known_aliases [] []))) a
     = (if a \<in> set known_aliases then alias_dbus_path service a else None)
   \<and> set (snd (snd (read_aliases service known_aliases [] [])))
       = {(path, a). a \<in> set known_aliases \<and> alias_dbus_path service a = Some path}"
proof -
  have x: "map_of (fst (snd (read_aliases service known_aliases [] []))) a
     = (if a \<in> set known_aliases then alias_dbus_path service a else None)"
    by (simp add: read_aliases_forward)
  have y: "set (snd (snd (read_aliases service known_aliases [] [])))
       = {(path, a). a \<in> set known_aliases \<and> alias_dbus_path service a = Some path}"
    by (simp add: read_aliases_reverse)
  show ?thesis by (rule conjI [OF x y])
qed

lemma block_lists_bound_alias:
  assumes a: "col_label col \<noteq> None \<and> a \<in> set known_aliases
                \<and> alias_dbus_path service a = Some (col_path col)"
  shows "Stdout (indent @ ''  Alias: '' @ a @ [nl])
           \<in> set (fst (print_collection lib app col
                     (snd (snd (read_aliases service known_aliases [] []))) indent static))"
proof -
  have m: "(col_path col, a) \<in> set (snd (snd (read_aliases service known_aliases [] [])))"
    using a by (simp add: read_aliases_reverse)
  from a have l: "col_label col \<noteq> None" by simp
  show ?thesis
    by (rule collection_lists_alias [OF l m])
qed

lemma run_lists_bound_aliases:
  assumes a: "service_get_error service = None \<and> labelled service"
  shows "\<forall>col\<in>set (collections service). \<forall>a\<in>set known_aliases.
           alias_dbus_path service a = Some (col_path col) \<longrightarrow>
           Stdout (''    '' @ ''  Alias: '' @ a @ [nl]) \<in> set (on_activate lib app service)"
proof (intro ballI impI)
  fix col a
  assume c: "col \<in> set (collections service)" and k: "a \<in> set known_aliases"
    and b: "alias_dbus_path service a = Some (col_path col)"
  have all: "\<forall>col\<in>set (collections service). col_label col \<noteq> None
             \<and> (\<forall>item\<in>set (col_items col). item_label item \<noteq> None)"
    using a by (simp add: labelled_def)
  then have l: "col_label col \<noteq> None" using c by simp
  from print_collections_contains [OF all c, of lib app
      "snd (snd (read_aliases service known_aliases [] []))" None]
  obtain st where
    sub: "set (fst (print_collection lib app col
                 (snd (snd (read_aliases service known_aliases [] []))) ''    '' st))
           \<subseteq> set (fst (print_collections lib app (collections service)
                 (snd (snd (read_aliases service known_aliases [] []))) None))"
    by blast
  have m: "Stdout (''    '' @ ''  Alias: '' @ a @ [nl])
           \<in> set (fst (print_collection lib app col
                     (snd (snd (read_aliases service known_aliases [] []))) ''    '' st))"
    by (rule block_lists_bound_alias) (simp add: l k b)
  from a have n: "service_get_error service = None" by simp
  from print_shape [OF n, of lib app]
  obtain before where
    p: "fst (print lib app service) =
          before @ fst (print_collections lib app (collections service)
                 (snd (snd (read_aliases service known_aliases [] []))) None)"
    by (metis append.assoc fst_conv)
  have "set (fst (print_collections lib app (collections service)
                 (snd (snd (read_aliases service known_aliases [] []))) None))
          \<subseteq> set (on_activate lib app service)"
    by (auto simp: on_activate_events p)
  with sub m show "Stdout (''    '' @ ''  Alias: '' @ a @ [nl]) \<in> set (on_activate lib app service)"
    by blast
qed

subsection \<open>Lemmas: what each object gets\<close>

lemma print_attribute_lines_map:
  "print_attribute_lines attrib_indent attributes
     = map (\<lambda>(key, val).
              Stdout (attrib_indent @ ''  '' @ [dq] @ key @ [dq] @ '' = '' @ [dq] @ val @ [dq, nl]))
         attributes"
  by (induction attrib_indent attributes rule: print_attribute_lines.induct) simp_all

lemma takeWhile_stdout:
  assumes "\<forall>e\<in>set written. is_stdout e" and "\<not> is_stdout e"
  shows "takeWhile is_stdout (written @ e # es) = written"
  using assms by (simp add: takeWhile_append2)

lemma item_text_before_lock:
  assumes "item_label item = Some label"
  shows "takeWhile is_stdout (fst (print_item lib app item indent static))
     = [Stdout (indent @ ''Item: '' @ [dq] @ label @ [dq, nl]),
        Stdout (indent @ ''  Path: '' @ item_path item @ [nl])]
       @ fst (print_timestamps lib indent (item_created item) (item_modified item))
       @ (if to_map (item_attributes item) = [] then []
          else Stdout (indent @ ''  Attributes:'' @ [nl]) #
               map (\<lambda>(key, val).
                      Stdout ((case static of None \<Rightarrow> indent @ ''    '' | Some s \<Rightarrow> s)
                              @ ''  '' @ [dq] @ key @ [dq] @ '' = '' @ [dq] @ val @ [dq, nl]))
                 (to_map (item_attributes item)))"
proof -
  obtain ts where ts: "print_timestamps lib indent (item_created item) (item_modified item) = (ts, None)"
    and out: "\<forall>e\<in>set ts. is_stdout e"
    using print_timestamps_shape by blast
  define attributes where "attributes = to_map (item_attributes item)"
  define attrib_indent where
    "attrib_indent = (case static of None \<Rightarrow> indent @ ''    '' | Some s \<Rightarrow> s)"
  define written where
    "written = [Stdout (indent @ ''Item: '' @ [dq] @ label @ [dq, nl]),
             Stdout (indent @ ''  Path: '' @ item_path item @ [nl])] @ ts
            @ (if attributes \<noteq> [] then
                 Stdout (indent @ ''  Attributes:'' @ [nl])
                   # print_attribute_lines attrib_indent attributes
               else [])"
  have 1: "\<forall>e\<in>set written. is_stdout e"
    using out print_attribute_lines_stdout [of attrib_indent attributes]
    by (auto simp: written_def)
  have 2: "\<exists>rest. fst (print_item lib app item indent static) =
       written @ Get_locked (Item (item_path item)) (item_locked item) # rest"
    by (simp add: print_item_def assms ts Let_def unlock_def written_def
          attributes_def attrib_indent_def split: option.splits)
  then obtain rest where 3: "fst (print_item lib app item indent static) =
       written @ Get_locked (Item (item_path item)) (item_locked item) # rest"
    by blast
  have "takeWhile is_stdout (fst (print_item lib app item indent static)) = written"
    unfolding 3 by (rule takeWhile_stdout [OF 1]) simp
  then show ?thesis
    by (simp add: written_def ts attributes_def attrib_indent_def print_attribute_lines_map)
qed

lemma collection_reads_lock:
  assumes "col_label col \<noteq> None"
  shows "Get_locked (Collection (col_path col)) (col_locked col)
           \<in> set (fst (print_collection lib app col reverse_aliases indent static))"
proof -
  from assms obtain label where l: "col_label col = Some label" by auto
  from print_collection_shape [OF l, of lib app reverse_aliases indent static] show ?thesis by auto
qed

lemma on_activate_reads_locks:
  assumes n: "service_get_error service = None" and lb: "labelled service"
    and c: "col \<in> set (collections service)"
  shows "Get_locked (Collection (col_path col)) (col_locked col) \<in> set (on_activate lib app service)
         \<and> (col_locked col \<and> do_unlock app \<longrightarrow>
               Unlock (Collection (col_path col)) \<in> set (on_activate lib app service))
         \<and> (\<forall>item\<in>set (col_items col).
               Get_locked (Item (item_path item)) (item_locked item)
                 \<in> set (on_activate lib app service)
               \<and> (item_locked item \<and> do_unlock app \<longrightarrow>
                     Unlock (Item (item_path item)) \<in> set (on_activate lib app service)))"
proof -
  have all: "\<forall>col\<in>set (collections service). col_label col \<noteq> None
             \<and> (\<forall>item\<in>set (col_items col). item_label item \<noteq> None)"
    using lb by (simp add: labelled_def)
  then have l: "col_label col \<noteq> None" using c by simp
  from print_collections_contains [OF all c, of lib app
      "snd (snd (read_aliases service known_aliases [] []))" None]
  obtain st where
    sub: "set (fst (print_collection lib app col
                 (snd (snd (read_aliases service known_aliases [] []))) ''    '' st))
           \<subseteq> set (fst (print_collections lib app (collections service)
                 (snd (snd (read_aliases service known_aliases [] []))) None))"
    by blast
  have m: "Get_locked (Collection (col_path col)) (col_locked col)
           \<in> set (fst (print_collection lib app col
                     (snd (snd (read_aliases service known_aliases [] []))) ''    '' st))"
    by (rule collection_reads_lock [OF l])
  from print_shape [OF n, of lib app]
  obtain before where
    p: "fst (print lib app service) =
          before @ fst (print_collections lib app (collections service)
                 (snd (snd (read_aliases service known_aliases [] []))) None)"
    by (metis append.assoc fst_conv)
  have "set (fst (print_collections lib app (collections service)
                 (snd (snd (read_aliases service known_aliases [] []))) None))
          \<subseteq> set (on_activate lib app service)"
    by (auto simp: on_activate_events p)
  with sub m have x: "Get_locked (Collection (col_path col)) (col_locked col)
                        \<in> set (on_activate lib app service)"
    by blast
  have pol: "unlock_policy (do_unlock app) (on_activate lib app service)"
    by (rule unlock_policy_on_activate)
  have y: "col_locked col \<and> do_unlock app \<longrightarrow>
               Unlock (Collection (col_path col)) \<in> set (on_activate lib app service)"
    using x unlock_policy_iff [OF pol, of "Collection (col_path col)"] by auto
  have z: "\<forall>item\<in>set (col_items col).
               Get_locked (Item (item_path item)) (item_locked item)
                 \<in> set (on_activate lib app service)
               \<and> (item_locked item \<and> do_unlock app \<longrightarrow>
                     Unlock (Item (item_path item)) \<in> set (on_activate lib app service))"
  proof
    fix item assume i: "item \<in> set (col_items col)"
    from on_activate_visit [OF n lb c, of lib app] i
    have r: "Get_locked (Item (item_path item)) (item_locked item)
                 \<in> set (on_activate lib app service)"
      by blast
    have "item_locked item \<and> do_unlock app \<longrightarrow>
                     Unlock (Item (item_path item)) \<in> set (on_activate lib app service)"
      using r unlock_policy_iff [OF pol, of "Item (item_path item)"] by auto
    with r show "Get_locked (Item (item_path item)) (item_locked item)
                 \<in> set (on_activate lib app service)
               \<and> (item_locked item \<and> do_unlock app \<longrightarrow>
                     Unlock (Item (item_path item)) \<in> set (on_activate lib app service))"
      by (rule conjI)
  qed
  show ?thesis by (rule conjI [OF x conjI [OF y z]])
qed

lemma labelled_run_reads_locks:
  assumes a: "service_get_error service = None \<and> labelled service"
  shows "\<forall>col\<in>set (collections service).
           Get_locked (Collection (col_path col)) (col_locked col)
             \<in> set (on_activate lib app service)
           \<and> (col_locked col \<and> do_unlock app \<longrightarrow>
                 Unlock (Collection (col_path col)) \<in> set (on_activate lib app service))
           \<and> (\<forall>item\<in>set (col_items col).
                 Get_locked (Item (item_path item)) (item_locked item)
                   \<in> set (on_activate lib app service)
                 \<and> (item_locked item \<and> do_unlock app \<longrightarrow>
                       Unlock (Item (item_path item)) \<in> set (on_activate lib app service)))"
proof
  fix col assume c: "col \<in> set (collections service)"
  from a have n: "service_get_error service = None" and lb: "labelled service" by simp_all
  show "Get_locked (Collection (col_path col)) (col_locked col)
             \<in> set (on_activate lib app service)
           \<and> (col_locked col \<and> do_unlock app \<longrightarrow>
                 Unlock (Collection (col_path col)) \<in> set (on_activate lib app service))
           \<and> (\<forall>item\<in>set (col_items col).
                 Get_locked (Item (item_path item)) (item_locked item)
                   \<in> set (on_activate lib app service)
                 \<and> (item_locked item \<and> do_unlock app \<longrightarrow>
                       Unlock (Item (item_path item)) \<in> set (on_activate lib app service)))"
    by (rule on_activate_reads_locks [OF n lb c])
qed

lemma collection_unlock_error_then_items:
  assumes a: "col_label col \<noteq> None \<and> do_unlock app \<and> col_locked col
             \<and> col_unlock_reply col = Some err"
  shows "suffix (Stdout (indent @ ''  Error: '' @ what lib (to_error err) @ [nl]) #
                 Stdout [nl] # Get_items (col_path col) #
                 fst (print_items lib app (col_items col) (indent @ ''    '') static))
           (fst (print_collection lib app col reverse_aliases indent static))
         \<and> snd (snd (print_collection lib app col reverse_aliases indent static))
             = snd (snd (print_items lib app (col_items col) (indent @ ''    '') static))"
proof -
  from a obtain label where l: "col_label col = Some label" by auto
  from a have du: "do_unlock app" and lk: "col_locked col"
    and e: "col_unlock_reply col = Some err" by simp_all
  from print_collection_unlock_failed [OF l du lk e, of lib reverse_aliases indent static]
  obtain written where
    p: "print_collection lib app col reverse_aliases indent static =
       (written @ [Get_locked (Collection (col_path col)) True, Unlock (Collection (col_path col)),
                   Stdout (indent @ ''  Error: '' @ what lib (to_error err) @ [nl]),
                   Stdout [nl], Get_items (col_path col)]
          @ fst (print_items lib app (col_items col) (indent @ ''    '') static),
        snd (print_items lib app (col_items col) (indent @ ''    '') static))"
    by blast
  have "fst (print_collection lib app col reverse_aliases indent static)
          = (written @ [Get_locked (Collection (col_path col)) True,
                        Unlock (Collection (col_path col))])
            @ (Stdout (indent @ ''  Error: '' @ what lib (to_error err) @ [nl]) #
               Stdout [nl] # Get_items (col_path col) #
               fst (print_items lib app (col_items col) (indent @ ''    '') static))"
    by (simp add: p)
  then have x: "suffix (Stdout (indent @ ''  Error: '' @ what lib (to_error err) @ [nl]) #
                 Stdout [nl] # Get_items (col_path col) #
                 fst (print_items lib app (col_items col) (indent @ ''    '') static))
           (fst (print_collection lib app col reverse_aliases indent static))"
    by (rule suffixI)
  have y: "snd (snd (print_collection lib app col reverse_aliases indent static))
             = snd (snd (print_items lib app (col_items col) (indent @ ''    '') static))"
    by (simp add: p)
  show ?thesis by (rule conjI [OF x y])
qed

lemma collections_go_on:
  assumes a: "col_label col \<noteq> None \<and> (\<forall>item\<in>set (col_items col). item_label item \<noteq> None)"
  shows "print_collections lib app (col # cols) reverse_aliases static =
           (fst (print_collection lib app col reverse_aliases ''    '' static) @ Stdout [nl] #
              fst (print_collections lib app cols reverse_aliases
                     (fst (snd (print_collection lib app col reverse_aliases ''    '' static)))),
            snd (print_collections lib app cols reverse_aliases
                     (fst (snd (print_collection lib app col reverse_aliases ''    '' static)))))"
proof -
  from a have l: "col_label col \<noteq> None"
    and i: "\<forall>item\<in>set (col_items col). item_label item \<noteq> None" by simp_all
  show ?thesis by (rule print_collections_step [OF l i])
qed

lemma labelled_run_visits_all:
  assumes a: "service_get_error service = None \<and> labelled service"
  shows "snd (print lib app service) = None
         \<and> (\<forall>e\<in>set (on_activate lib app service). \<not> is_stderr e)
         \<and> (\<forall>col\<in>set (collections service).
               Get_items (col_path col) \<in> set (on_activate lib app service)
               \<and> (\<forall>item\<in>set (col_items col).
                     Get_locked (Item (item_path item)) (item_locked item)
                       \<in> set (on_activate lib app service)))"
proof -
  from a have n: "service_get_error service = None" and lb: "labelled service" by simp_all
  from labelled_run_completes [OF a, of lib app]
  have x: "snd (print lib app service) = None"
    and y: "\<forall>e\<in>set (on_activate lib app service). \<not> is_stderr e"
    by simp_all
  have z: "\<forall>col\<in>set (collections service).
               Get_items (col_path col) \<in> set (on_activate lib app service)
               \<and> (\<forall>item\<in>set (col_items col).
                     Get_locked (Item (item_path item)) (item_locked item)
                       \<in> set (on_activate lib app service))"
  proof
    fix col assume c: "col \<in> set (collections service)"
    show "Get_items (col_path col) \<in> set (on_activate lib app service)
               \<and> (\<forall>item\<in>set (col_items col).
                     Get_locked (Item (item_path item)) (item_locked item)
                       \<in> set (on_activate lib app service))"
      by (rule on_activate_visit [OF n lb c])
  qed
  show ?thesis by (rule conjI [OF x conjI [OF y z]])
qed

lemma attribute_lines_are_the_sorted_map:
  assumes d: "distinct (map fst table)" and m: "mset table' = mset table"
    and l: "item_label item = Some label"
  shows "takeWhile is_stdout
           (fst (print_item lib app (item\<lparr>item_attributes := table'\<rparr>) indent static))
     = [Stdout (indent @ ''Item: '' @ [dq] @ label @ [dq, nl]),
        Stdout (indent @ ''  Path: '' @ item_path item @ [nl])]
       @ fst (print_timestamps lib indent (item_created item) (item_modified item))
       @ (if table = [] then []
          else Stdout (indent @ ''  Attributes:'' @ [nl]) #
               map (\<lambda>(key, val).
                      Stdout ((case static of None \<Rightarrow> indent @ ''    '' | Some s \<Rightarrow> s)
                              @ ''  '' @ [dq] @ key @ [dq] @ '' = '' @ [dq] @ val @ [dq, nl]))
                 (to_map table))"
proof -
  have same: "to_map table' = to_map table"
    using d m by (rule to_map_order_independent)
  have e: "(to_map table = []) = (table = [])"
    using set_to_map [OF d] by (metis set_empty)
  have l': "item_label (item\<lparr>item_attributes := table'\<rparr>) = Some label"
    using l by simp
  show ?thesis
    using item_text_before_lock [OF l', of lib app indent static]
    by (simp add: same e)
qed

subsection \<open>Theorems\<close>

text \<open>
  C1. The lock handling should end by writing the lock state, read again after any unlock
  attempt. It does not: for a locked item, and a locked collection, whose unlocking
  succeeds, the block ends with the unlock request, with no second read of the lock state
  and no line for it; an unlocked item shows no lock state either.
\<close>

theorem lock_handling_ends_without_lock_state:
  "fst (print_item sample_library unlock_only (item_blob\<lparr>item_unlock_reply := None\<rparr>) [] None)
     = [Stdout (''Item: '' @ [dq] @ ''Blob'' @ [dq, nl]),
        Stdout ''  Path: /c/login/1\<newline>'',
        Stdout ''  Attributes:\<newline>'',
        Stdout (''      '' @ [dq] @ ''app'' @ [dq] @ '' = '' @ [dq] @ ''demo'' @ [dq, nl]),
        Stdout (''      '' @ [dq] @ ''user'' @ [dq] @ '' = '' @ [dq] @ ''me'' @ [dq, nl]),
        Get_locked (Item ''/c/login/1'') True,
        Unlock (Item ''/c/login/1'')]
   \<and> fst (print_collection sample_library unlock_only
          (collection_login\<lparr>col_unlock_reply := None, col_items := []\<rparr>) [] [] None)
     = [Stdout (''Collection: '' @ [dq] @ ''Login'' @ [dq, nl]),
        Stdout ''  Path: /c/login\<newline>'',
        Stdout ''  Modified: 2024-05-01 12:00:00\<newline>'',
        Get_locked (Collection ''/c/login'') True,
        Unlock (Collection ''/c/login''),
        Stdout ''\<newline>'',
        Get_items ''/c/login'']
   \<and> fst (print_item sample_library no_options item_test [] None)
     = [Stdout (''Item: '' @ [dq] @ ''Test'' @ [dq, nl]),
        Stdout ''  Path: /c/login/2\<newline>'',
        Stdout ''  Created: 2024-05-01 12:00:00\<newline>'',
        Stdout ''  Attributes:\<newline>'',
        Stdout (''      '' @ [dq] @ ''app'' @ [dq] @ '' = '' @ [dq] @ ''demo'' @ [dq, nl]),
        Get_locked (Item ''/c/login/2'') False]"
  by (simp add: sample_defs run_defs)

text \<open>
  C2. The value of a loaded secret. The content type and a text value are printed as
  specified, the text between double quotes. The dump of a value that is not text is
  labelled as hexadecimal but is not: every byte is written as the character \<open>0\<close>
  followed by the byte itself, so for the bytes \<open>0xDE 0xAD\<close> the line is
  \<open>Value: { \<close>, \<open>0\<close>, the raw byte \<open>0xDE\<close>, \<open>0\<close>, the raw byte \<open>0xAD\<close>,
  \<open> } (hex)\<close>, and not \<open>Value: { dead } (hex)\<close>.
\<close>

theorem hex_dump_writes_raw_bytes:
  "to_string_hex bytes = concat (map (\<lambda>c. [CHR ''0'', c]) bytes)
   \<and> to_string_hex [CHR 0xDE, CHR 0xAD] = [CHR ''0'', CHR 0xDE, CHR ''0'', CHR 0xAD]
   \<and> to_string_hex [CHR 0xDE, CHR 0xAD] \<noteq> ''dead''
   \<and> print_secret_value []
         (Some \<lparr>content_type = ''application/octet-stream'', value_text = None,
                 value_bytes = [CHR 0xDE, CHR 0xAD]\<rparr>)
       = [Stdout ''  Secret:\<newline>'',
          Stdout ''    Type: application/octet-stream\<newline>'',
          Stdout (''    Value: { '' @ [CHR ''0'', CHR 0xDE, CHR ''0'', CHR 0xAD] @ '' } (hex)\<newline>'')]
   \<and> print_secret_value []
         (Some \<lparr>content_type = ''text/plain'', value_text = Some ''hunter2'',
                 value_bytes = ''hunter2''\<rparr>)
       = [Stdout ''  Secret:\<newline>'',
          Stdout ''    Type: text/plain\<newline>'',
          Stdout (''    Value: '' @ [dq] @ ''hunter2'' @ [dq, nl])]"
  by (simp add: to_string_hex_raw insert_char_def print_secret_value_def nl_def)

text \<open>
  C3. An unlock request is made for an object if and only if \<open>--unlock\<close> was given and
  the lock state just read for that object is true. In the block of a collection, and of
  an item, that has a label, the lock state of that object is read, and the unlock request
  follows exactly when it was read as true and unlocking was asked for; nothing else is
  read or requested about the object. In a run over a keyring whose labels are all
  present, this holds of every collection and every item: its lock state is read, and it
  is asked to unlock if locked and \<open>--unlock\<close> given. In any run, the requests for an
  object are there only when unlocking was asked for and the object was read as locked,
  each right after that read.
\<close>

theorem unlock_requested_iff_read_locked:
  "unlock_policy (do_unlock app) (on_activate lib app service)
   \<and> (Unlock target \<in> set (on_activate lib app service)
        \<longleftrightarrow> do_unlock app \<and> Get_locked target True \<in> set (on_activate lib app service))
   \<and> (Unlock target \<in> set (fst (print_collection lib app col reverse_aliases indent static))
        \<longleftrightarrow> do_unlock app
            \<and> Get_locked target True
                 \<in> set (fst (print_collection lib app col reverse_aliases indent static)))
   \<and> (Unlock target \<in> set (fst (print_item lib app item indent static))
        \<longleftrightarrow> do_unlock app
            \<and> Get_locked target True \<in> set (fst (print_item lib app item indent static)))
   \<and> filter (concerns (Collection (col_path col)))
         (fst (print_collection lib app col reverse_aliases indent static))
     = (if col_label col = None then []
        else Get_locked (Collection (col_path col)) (col_locked col) #
             (if col_locked col \<and> do_unlock app then [Unlock (Collection (col_path col))] else []))
   \<and> filter (concerns (Item (item_path item))) (fst (print_item lib app item indent static))
     = (if item_label item = None then []
        else Get_locked (Item (item_path item)) (item_locked item) #
             (if item_locked item \<and> do_unlock app then [Unlock (Item (item_path item))] else []))
   \<and> (service_get_error service = None \<and> labelled service \<longrightarrow>
        (\<forall>col\<in>set (collections service).
           Get_locked (Collection (col_path col)) (col_locked col)
             \<in> set (on_activate lib app service)
           \<and> (col_locked col \<and> do_unlock app \<longrightarrow>
                 Unlock (Collection (col_path col)) \<in> set (on_activate lib app service))
           \<and> (\<forall>item\<in>set (col_items col).
                 Get_locked (Item (item_path item)) (item_locked item)
                   \<in> set (on_activate lib app service)
                 \<and> (item_locked item \<and> do_unlock app \<longrightarrow>
                       Unlock (Item (item_path item)) \<in> set (on_activate lib app service)))))"
proof -
  have 1: "unlock_policy (do_unlock app) (on_activate lib app service)"
    by (rule unlock_policy_on_activate)
  have 2: "unlock_policy (do_unlock app)
             (fst (print_collection lib app col reverse_aliases indent static))"
    by (rule unlock_policy_collection)
  have 3: "unlock_policy (do_unlock app) (fst (print_item lib app item indent static))"
    by (rule unlock_policy_item)
  note 4 = unlock_policy_iff [OF 1, of target]
  note 5 = unlock_policy_iff [OF 2, of target]
  note 6 = unlock_policy_iff [OF 3, of target]
  show ?thesis
    by (rule conjI [OF 1 conjI [OF 4 conjI [OF 5 conjI [OF 6
          conjI [OF collection_lock_events conjI [OF item_lock_events impI]]]]]])
      (erule labelled_run_reads_locks)
qed

theorem unlock_requested_iff_read_locked_witness:
  "service_get_error sample_service = None \<and> labelled sample_service
   \<and> unlock_policy True (on_activate sample_library unlock_only sample_service)
   \<and> col_locked collection_login \<and> do_unlock unlock_only
   \<and> Get_locked (Collection ''/c/login'') True
        \<in> set (on_activate sample_library unlock_only sample_service)
   \<and> Unlock (Collection ''/c/login'')
        \<in> set (on_activate sample_library unlock_only sample_service)
   \<and> Unlock (Collection ''/c/login'')
        \<notin> set (on_activate sample_library no_options sample_service)
   \<and> Unlock (Item ''/c/login/1'') \<in> set (on_activate sample_library unlock_only sample_service)
   \<and> Get_locked (Item ''/c/login/1'') True
        \<in> set (on_activate sample_library unlock_only sample_service)
   \<and> Get_locked (Item ''/c/login/2'') False
        \<in> set (on_activate sample_library unlock_only sample_service)
   \<and> Unlock (Item ''/c/login/2'') \<notin> set (on_activate sample_library unlock_only sample_service)
   \<and> filter (concerns (Collection ''/c/login''))
        (fst (print_collection sample_library unlock_only
                (collection_login\<lparr>col_locked := False\<rparr>) [] [] None))
      = [Get_locked (Collection ''/c/login'') False]
   \<and> filter (concerns (Item ''/c/login/1''))
        (fst (print_item sample_library no_options item_blob [] None))
      = [Get_locked (Item ''/c/login/1'') True]"
  using unlock_requested_iff_read_locked
    [where app = unlock_only and lib = sample_library and service = sample_service
       and target = "Item ''/c/login/2''" and col = "collection_login\<lparr>col_locked := False\<rparr>"
       and reverse_aliases = "[]" and indent = "[]" and static = None and item = item_blob]
    unlock_requested_iff_read_locked
    [where app = no_options and lib = sample_library and service = sample_service
       and target = "Collection ''/c/login''" and col = collection_login
       and reverse_aliases = "[]" and indent = "[]" and static = None and item = item_blob]
  by (simp add: sample_defs run_defs labelled_def)

text \<open>
  C4. When the unlock attempt of an item fails, no secret is loaded for that item, its
  block ends normally and the loop goes on with the next sibling; when the unlock attempt
  of a collection fails, its items are still listed and printed, and the collection ends
  as its items do. In a keyring where every label is present, every collection has its
  items listed and every item is visited, whatever unlock attempts fail.
\<close>

theorem unlock_failure_stays_local:
  "(item_label item \<noteq> None \<and> do_unlock app \<and> item_locked item \<and> item_unlock_reply item \<noteq> None
      \<longrightarrow> (\<forall>e\<in>set (fst (print_item lib app item indent static)). \<not> is_load_secret e)
          \<and> snd (snd (print_item lib app item indent static)) = None
          \<and> fst (print_items lib app (item # items) indent static)
              = fst (print_item lib app item indent static) @ Stdout [nl] #
                fst (print_items lib app items indent
                       (fst (snd (print_item lib app item indent static)))))
   \<and> (col_label col \<noteq> None \<and> do_unlock app \<and> col_locked col \<and> col_unlock_reply col \<noteq> None
      \<longrightarrow> suffix (Get_items (col_path col) #
                    fst (print_items lib app (col_items col) (indent @ ''    '') static))
             (fst (print_collection lib app col reverse_aliases indent static))
          \<and> snd (snd (print_collection lib app col reverse_aliases indent static))
              = snd (snd (print_items lib app (col_items col) (indent @ ''    '') static)))
   \<and> (service_get_error service = None \<and> labelled service
      \<longrightarrow> (\<forall>col\<in>set (collections service).
             Get_items (col_path col) \<in> set (on_activate lib app service)
             \<and> (\<forall>item\<in>set (col_items col).
                   Get_locked (Item (item_path item)) (item_locked item)
                     \<in> set (on_activate lib app service))))"
proof -
  have 3: "\<forall>col\<in>set (collections service).
             Get_items (col_path col) \<in> set (on_activate lib app service)
             \<and> (\<forall>item\<in>set (col_items col).
                   Get_locked (Item (item_path item)) (item_locked item)
                     \<in> set (on_activate lib app service))"
    if a: "service_get_error service = None \<and> labelled service"
  proof
    fix col assume c: "col \<in> set (collections service)"
    from a have n: "service_get_error service = None" and lb: "labelled service" by simp_all
    show "Get_items (col_path col) \<in> set (on_activate lib app service)
             \<and> (\<forall>item\<in>set (col_items col).
                   Get_locked (Item (item_path item)) (item_locked item)
                     \<in> set (on_activate lib app service))"
      by (rule on_activate_visit [OF n lb c])
  qed
  show ?thesis
    by (rule conjI [OF impI conjI [OF impI impI]])
      (erule item_unlock_failed_local collection_unlock_failed_local 3)+
qed

theorem unlock_failure_stays_local_witness:
  "item_label item_blob \<noteq> None \<and> do_unlock secrets_and_unlock \<and> item_locked item_blob
   \<and> item_unlock_reply item_blob \<noteq> None
   \<and> col_label collection_login \<noteq> None \<and> col_locked collection_login
   \<and> col_unlock_reply collection_login \<noteq> None
   \<and> service_get_error sample_service = None \<and> labelled sample_service
   \<and> Load_secret ''/c/login/1'' \<notin> set (on_activate sample_library secrets_and_unlock sample_service)
   \<and> Load_secret ''/c/login/2'' \<in> set (on_activate sample_library secrets_and_unlock sample_service)
   \<and> Get_items ''/c/login'' \<in> set (on_activate sample_library secrets_and_unlock sample_service)
   \<and> Get_locked (Item ''/c/login/2'') False
        \<in> set (on_activate sample_library secrets_and_unlock sample_service)"
  using unlock_failure_stays_local
    [where item = item_blob and app = secrets_and_unlock and lib = sample_library
       and indent = "''    ''" and static = None and items = "[item_test]"
       and col = collection_login and reverse_aliases = "[]" and service = sample_service]
  by (simp add: sample_defs run_defs labelled_def)

text \<open>
  C5. An error of the initial connection is fatal: the run is the request for the service
  and one line on standard error, "Error: " followed by the message, and nothing is
  written to standard output. An error of an unlock attempt or of loading a secret is
  written to standard output inside the block of its object, at that object's
  indentation, and no exception leaves the block. The traversal goes on: after the error
  line of a collection come its items; after an item that has a label, whatever its
  replies, come its siblings; after a collection come the collections that follow; and a
  run over a keyring whose labels are all present lists the items of every collection,
  visits every item and ends normally with nothing on standard error.
\<close>

theorem errors_fatal_or_inline:
  "(service_get_error service = Some err \<longrightarrow>
      on_activate lib app service
        = [Service_get (service_flags app), Stderr (''Error: '' @ what lib (to_error err) @ [nl])])
   \<and> (item_label item \<noteq> None \<and> do_unlock app \<and> item_locked item
        \<and> item_unlock_reply item = Some err \<longrightarrow>
      suffix [Get_locked (Item (item_path item)) True, Unlock (Item (item_path item)),
              Stdout (indent @ ''  Error: '' @ what lib (to_error err) @ [nl])]
        (fst (print_item lib app item indent static))
      \<and> snd (snd (print_item lib app item indent static)) = None)
   \<and> (item_label item \<noteq> None \<and> show_secrets app
        \<and> \<not> (do_unlock app \<and> item_locked item \<and> item_unlock_reply item \<noteq> None)
        \<and> item_load_secret_reply item = Some err \<longrightarrow>
      suffix [Load_secret (item_path item),
              Stdout (indent @ ''  Error: '' @ what lib (to_error err) @ [nl])]
        (fst (print_item lib app item indent static))
      \<and> snd (snd (print_item lib app item indent static)) = None)
   \<and> (col_label col \<noteq> None \<and> do_unlock app \<and> col_locked col
        \<and> col_unlock_reply col = Some err \<longrightarrow>
      suffix (Stdout (indent @ ''  Error: '' @ what lib (to_error err) @ [nl]) #
              Stdout [nl] # Get_items (col_path col) #
              fst (print_items lib app (col_items col) (indent @ ''    '') static))
        (fst (print_collection lib app col reverse_aliases indent static))
      \<and> snd (snd (print_collection lib app col reverse_aliases indent static))
          = snd (snd (print_items lib app (col_items col) (indent @ ''    '') static)))
   \<and> (item_label item \<noteq> None \<longrightarrow>
      print_items lib app (item # items) indent static =
        (fst (print_item lib app item indent static) @ Stdout [nl] #
           fst (print_items lib app items indent
                  (fst (snd (print_item lib app item indent static)))),
         snd (print_items lib app items indent
                  (fst (snd (print_item lib app item indent static))))))
   \<and> (col_label col \<noteq> None \<and> (\<forall>item\<in>set (col_items col). item_label item \<noteq> None) \<longrightarrow>
      print_collections lib app (col # cols) reverse_aliases static =
        (fst (print_collection lib app col reverse_aliases ''    '' static) @ Stdout [nl] #
           fst (print_collections lib app cols reverse_aliases
                  (fst (snd (print_collection lib app col reverse_aliases ''    '' static)))),
         snd (print_collections lib app cols reverse_aliases
                  (fst (snd (print_collection lib app col reverse_aliases ''    '' static))))))
   \<and> (service_get_error service = None \<and> labelled service \<longrightarrow>
      snd (print lib app service) = None
      \<and> (\<forall>e\<in>set (on_activate lib app service). \<not> is_stderr e)
      \<and> (\<forall>col\<in>set (collections service).
            Get_items (col_path col) \<in> set (on_activate lib app service)
            \<and> (\<forall>item\<in>set (col_items col).
                  Get_locked (Item (item_path item)) (item_locked item)
                    \<in> set (on_activate lib app service))))"
  by (rule conjI [OF impI conjI [OF impI conjI [OF impI conjI [OF impI
        conjI [OF impI conjI [OF impI impI]]]]]])
    (erule connection_refused_is_fatal item_unlock_error_inline item_load_error_inline
       collection_unlock_error_then_items print_items_step collections_go_on
       labelled_run_visits_all)+

theorem errors_fatal_or_inline_witness:
  "on_activate sample_library secrets_and_unlock (sample_service\<lparr>service_get_error := Some dismissed\<rparr>)
     = [Service_get {SECRET_SERVICE_OPEN_SESSION, SECRET_SERVICE_LOAD_COLLECTIONS},
        Stderr ''Error: Secret item or collection is locked. dismissed\<newline>'']
   \<and> service_get_error keyring_with_errors = None \<and> labelled keyring_with_errors
   \<and> filter is_request (on_activate sample_library secrets_and_unlock keyring_with_errors)
     = [Service_get {SECRET_SERVICE_OPEN_SESSION, SECRET_SERVICE_LOAD_COLLECTIONS},
        Read_alias ''default'', Read_alias ''login'', Read_alias ''session'',
        Get_collections,
        Get_locked (Collection ''/c/login'') True, Unlock (Collection ''/c/login''),
        Get_items ''/c/login'',
        Get_locked (Item ''/c/login/1'') True, Unlock (Item ''/c/login/1''),
        Get_locked (Item ''/c/login/2'') False, Load_secret ''/c/login/2'',
        Get_locked (Item ''/c/login/3'') False, Load_secret ''/c/login/3'',
        Get_locked (Collection ''/c/other'') True, Unlock (Collection ''/c/other''),
        Get_items ''/c/other'',
        Get_locked (Item ''/c/login/2'') False, Load_secret ''/c/login/2'']
   \<and> Stdout ''      Error: Secret item or collection is locked. dismissed\<newline>''
        \<in> set (on_activate sample_library secrets_and_unlock keyring_with_errors)
   \<and> Stdout ''          Error: Secret item or collection is locked. dismissed\<newline>''
        \<in> set (on_activate sample_library secrets_and_unlock keyring_with_errors)
   \<and> Stdout (''            Value: '' @ [dq] @ ''hunter2'' @ [dq, nl])
        \<in> set (on_activate sample_library secrets_and_unlock keyring_with_errors)"
  using errors_fatal_or_inline
    [where service = keyring_with_errors and err = dismissed and lib = sample_library
       and app = secrets_and_unlock and item = item_blob and indent = "''        ''"
       and static = None and col = collection_login and reverse_aliases = "[]"
       and items = "[]" and cols = "[]"]
    errors_fatal_or_inline
    [where service = "sample_service\<lparr>service_get_error := Some dismissed\<rparr>" and err = dismissed
       and lib = sample_library and app = secrets_and_unlock
       and item = "item_test\<lparr>item_load_secret_reply := Some dismissed\<rparr>" and indent = "[]"
       and static = None and col = collection_login and reverse_aliases = "[]"
       and items = "[]" and cols = "[]"]
  by (simp add: sample_defs run_defs labelled_def)

text \<open>
  C6. The error classifier: an error outside the secret-service domain gives the generic
  "Couldn't get secret service." with the underlying description appended; inside the
  domain, protocol, locked, not-found and already-exists errors each give their own
  message, the four of them different, again followed by the description.
\<close>

theorem to_error_classifies:
  "to_error \<lparr>domain = OTHER_DOMAIN d, code = c, message = m\<rparr>
     = Runtime_error (''Couldn't get secret service.'' @ '' '' @ m)
   \<and> to_error \<lparr>domain = SECRET_ERROR, code = SECRET_ERROR_PROTOCOL, message = m\<rparr>
     = Runtime_error (''Received invalid data from secret service.'' @ '' '' @ m)
   \<and> to_error \<lparr>domain = SECRET_ERROR, code = SECRET_ERROR_IS_LOCKED, message = m\<rparr>
     = Runtime_error (''Secret item or collection is locked.'' @ '' '' @ m)
   \<and> to_error \<lparr>domain = SECRET_ERROR, code = SECRET_ERROR_NO_SUCH_OBJECT, message = m\<rparr>
     = Runtime_error (''Secret item or collection not found.'' @ '' '' @ m)
   \<and> to_error \<lparr>domain = SECRET_ERROR, code = SECRET_ERROR_ALREADY_EXISTS, message = m\<rparr>
     = Runtime_error (''Secret item or collection already exists.'' @ '' '' @ m)
   \<and> distinct (map (\<lambda>c. to_error \<lparr>domain = SECRET_ERROR, code = c, message = m\<rparr>)
        [SECRET_ERROR_PROTOCOL, SECRET_ERROR_IS_LOCKED,
         SECRET_ERROR_NO_SUCH_OBJECT, SECRET_ERROR_ALREADY_EXISTS])"
  by (simp add: to_error_def)

theorem to_error_classifies_witness:
  "to_error \<lparr>domain = OTHER_DOMAIN 7, code = SECRET_ERROR_other 2, message = ''timeout''\<rparr>
     = Runtime_error ''Couldn't get secret service. timeout''
   \<and> to_error \<lparr>domain = SECRET_ERROR, code = SECRET_ERROR_IS_LOCKED, message = ''timeout''\<rparr>
     = Runtime_error ''Secret item or collection is locked. timeout''"
  using to_error_classifies [of 7 "SECRET_ERROR_other 2" "''timeout''"] by simp

text \<open>
  C7, as the code has it. After a successful connection the run writes the service header
  ("Service" and its "Path:" line) and then reads the three aliases \<open>default\<close>,
  \<open>login\<close>, \<open>session\<close>, in this order and whatever they are bound to; no alias is read
  later. The map then holds exactly the bindings that were found and the multimap their
  reverse, so an alias without a binding is in neither and raises nothing; both are complete
  before the alias lines and the first collection block. The block of a collection that
  has a label lists every alias bound to its path, and so does the run for every
  collection of a keyring whose labels are all present. The counterexample: the header is
  written before the first alias is read, and a collection without a label, bound to
  \<open>default\<close>, has no alias line.
\<close>

theorem aliases_resolved_then_listed:
  "(service_get_error service = None \<longrightarrow>
      take 6 (on_activate lib app service)
        = [Service_get (service_flags app),
           Stdout (''Service'' @ [nl]),
           Stdout (''  Path: '' @ service_path service @ [nl]),
           Read_alias ''default'', Read_alias ''login'', Read_alias ''session'']
      \<and> (\<forall>e\<in>set (drop 6 (on_activate lib app service)). \<not> is_read_alias e))
   \<and> (map_of (fst (snd (read_aliases service known_aliases [] []))) a
        = (if a \<in> set known_aliases then alias_dbus_path service a else None)
      \<and> set (snd (snd (read_aliases service known_aliases [] [])))
          = {(path, a). a \<in> set known_aliases \<and> alias_dbus_path service a = Some path})
   \<and> (col_label col \<noteq> None \<and> a \<in> set known_aliases
        \<and> alias_dbus_path service a = Some (col_path col) \<longrightarrow>
      Stdout (indent @ ''  Alias: '' @ a @ [nl])
        \<in> set (fst (print_collection lib app col
                  (snd (snd (read_aliases service known_aliases [] []))) indent static)))
   \<and> (service_get_error service = None \<and> labelled service \<longrightarrow>
      (\<forall>col\<in>set (collections service). \<forall>a\<in>set known_aliases.
         alias_dbus_path service a = Some (col_path col) \<longrightarrow>
         Stdout (''    '' @ ''  Alias: '' @ a @ [nl]) \<in> set (on_activate lib app service)))"
  by (rule conjI [OF impI conjI [OF maps_complete conjI [OF impI impI]]])
    (erule aliases_read_after_header block_lists_bound_alias run_lists_bound_aliases)+

theorem aliases_resolved_then_listed_witness:
  "service_get_error sample_service = None \<and> labelled sample_service
   \<and> take 6 (on_activate sample_library unlock_only sample_service)
     = [Service_get {SECRET_SERVICE_LOAD_COLLECTIONS},
        Stdout ''Service\<newline>'', Stdout ''  Path: /org/freedesktop/secrets\<newline>'',
        Read_alias ''default'', Read_alias ''login'', Read_alias ''session'']
   \<and> read_aliases sample_service known_aliases [] []
     = ([Read_alias ''default'', Read_alias ''login'', Read_alias ''session''],
        [(''default'', ''/c/login''), (''login'', ''/c/login'')],
        [(''/c/login'', ''default''), (''/c/login'', ''login'')])
   \<and> alias_dbus_path sample_service ''session'' = None
   \<and> col_label collection_login \<noteq> None
   \<and> alias_dbus_path sample_service ''login'' = Some (col_path collection_login)
   \<and> Stdout ''      Alias: login\<newline>'' \<in> set (on_activate sample_library unlock_only sample_service)
   \<and> Stdout ''      Alias: default\<newline>'' \<in> set (on_activate sample_library unlock_only sample_service)
   \<and> Stdout ''      Alias: session\<newline>'' \<notin> set (on_activate sample_library unlock_only sample_service)"
  using aliases_resolved_then_listed
    [where service = sample_service and lib = sample_library and app = unlock_only
       and a = "''login''" and col = collection_login and indent = "''    ''" and static = None]
  by (simp add: sample_defs run_defs labelled_def)

theorem maps_built_before_rendering_counterexample:
  "take 4 (on_activate sample_library unlock_only sample_service)
     = [Service_get {SECRET_SERVICE_LOAD_COLLECTIONS},
        Stdout ''Service\<newline>'', Stdout ''  Path: /org/freedesktop/secrets\<newline>'',
        Read_alias ''default'']
   \<and> alias_dbus_path sample_service ''default'' = Some ''/c/login''
   \<and> on_activate sample_library unlock_only
        (sample_service\<lparr>collections := [collection_login\<lparr>col_label := None\<rparr>]\<rparr>)
     = [Service_get {SECRET_SERVICE_LOAD_COLLECTIONS},
        Stdout ''Service\<newline>'', Stdout ''  Path: /org/freedesktop/secrets\<newline>'',
        Read_alias ''default'', Read_alias ''login'', Read_alias ''session'',
        Stdout ''  Aliases:\<newline>'', Stdout ''    default: /c/login\<newline>'',
        Stdout ''    login: /c/login\<newline>'', Stdout ''\<newline>'', Get_collections,
        Stdout (''    Collection: '' @ [dq]),
        Stderr ''Error: bad optional access\<newline>'']"
  by (simp add: sample_defs run_defs)

text \<open>
  C8. When secrets were not requested (the program's secrets level is the flag
  \<open>--secrets\<close>), no secret is loaded for any item in the whole run, whether or not
  \<open>--unlock\<close> is given.
\<close>

theorem secrets_not_requested_not_loaded:
  "\<not> show_secrets app \<Longrightarrow> Load_secret path \<notin> set (on_activate lib app service)"
  using no_load_on_activate [of app lib service] by fastforce

theorem secrets_not_requested_not_loaded_witness:
  "\<not> show_secrets unlock_only
   \<and> do_unlock unlock_only
   \<and> Load_secret ''/c/login/2'' \<notin> set (on_activate sample_library unlock_only sample_service)
   \<and> Load_secret ''/c/login/2'' \<in> set (on_activate sample_library secrets_and_unlock sample_service)"
  using secrets_not_requested_not_loaded [of unlock_only "''/c/login/2''" sample_library sample_service]
  by (simp add: sample_defs run_defs)

text \<open>
  C9. Attribute rendering does not depend on the order in which the hash table yields its
  entries: for a table with distinct keys (as a hash table has), any reordering gives the
  same map, which has every entry of the table, sorted by key, and the same events of the
  item. What the item writes before its lock handling is its label, its path, its
  timestamps and, for a table that is not empty, the line "Attributes:" followed by one
  line per entry of that map, in the map's order, that is by increasing key.
\<close>

theorem attributes_sorted_whatever_the_order:
  assumes "distinct (map fst table)" and "mset table' = mset table"
  shows "to_map table' = to_map table
     \<and> sorted_wrt (<) (map fst (to_map table))
     \<and> set (to_map table) = set table
     \<and> print_item lib app (item\<lparr>item_attributes := table'\<rparr>) indent static
         = print_item lib app (item\<lparr>item_attributes := table\<rparr>) indent static
     \<and> print_attribute_lines attrib_indent (to_map table)
         = map (\<lambda>(key, val).
                  Stdout (attrib_indent @ ''  '' @ [dq] @ key @ [dq] @ '' = '' @ [dq] @ val @ [dq, nl]))
             (to_map table)
     \<and> (item_label item = Some label \<longrightarrow>
          takeWhile is_stdout
            (fst (print_item lib app (item\<lparr>item_attributes := table'\<rparr>) indent static))
          = [Stdout (indent @ ''Item: '' @ [dq] @ label @ [dq, nl]),
             Stdout (indent @ ''  Path: '' @ item_path item @ [nl])]
            @ fst (print_timestamps lib indent (item_created item) (item_modified item))
            @ (if table = [] then []
               else Stdout (indent @ ''  Attributes:'' @ [nl]) #
                    map (\<lambda>(key, val).
                           Stdout ((case static of None \<Rightarrow> indent @ ''    '' | Some s \<Rightarrow> s)
                                   @ ''  '' @ [dq] @ key @ [dq] @ '' = '' @ [dq] @ val @ [dq, nl]))
                      (to_map table)))"
proof -
  have same: "to_map table' = to_map table"
    using assms by (rule to_map_order_independent)
  have eq: "print_item lib app (item\<lparr>item_attributes := table'\<rparr>) indent static
         = print_item lib app (item\<lparr>item_attributes := table\<rparr>) indent static"
    by (simp add: print_item_def print_item_secret_def same
          cong: option.case_cong prod.case_cong if_cong)
  show ?thesis
    by (rule conjI [OF same conjI [OF sorted_to_map conjI [OF set_to_map [OF assms(1)]
          conjI [OF eq conjI [OF print_attribute_lines_map impI]]]]])
      (erule attribute_lines_are_the_sorted_map [OF assms])
qed

theorem attributes_sorted_whatever_the_order_witness:
  "distinct (map fst [(''user'', ''me''), (''app'', ''demo'')])
   \<and> mset [(''app'', ''demo''), (''user'', ''me'')] = mset [(''user'', ''me''), (''app'', ''demo'')]
   \<and> to_map [(''user'', ''me''), (''app'', ''demo'')] = [(''app'', ''demo''), (''user'', ''me'')]
   \<and> to_map [(''app'', ''demo''), (''user'', ''me'')] = [(''app'', ''demo''), (''user'', ''me'')]
   \<and> item_label item_test = Some ''Test''
   \<and> takeWhile is_stdout (fst (print_item sample_library unlock_only
          (item_test\<lparr>item_attributes := [(''user'', ''me''), (''app'', ''demo'')]\<rparr>) [] None))
       = [Stdout (''Item: '' @ [dq] @ ''Test'' @ [dq, nl]),
          Stdout ''  Path: /c/login/2\<newline>'',
          Stdout ''  Created: 2024-05-01 12:00:00\<newline>'',
          Stdout ''  Attributes:\<newline>'',
          Stdout (''      '' @ [dq] @ ''app'' @ [dq] @ '' = '' @ [dq] @ ''demo'' @ [dq, nl]),
          Stdout (''      '' @ [dq] @ ''user'' @ [dq] @ '' = '' @ [dq] @ ''me'' @ [dq, nl])]
   \<and> takeWhile is_stdout (fst (print_item sample_library unlock_only
          (item_test\<lparr>item_attributes := [(''app'', ''demo''), (''user'', ''me'')]\<rparr>) [] None))
       = [Stdout (''Item: '' @ [dq] @ ''Test'' @ [dq, nl]),
          Stdout ''  Path: /c/login/2\<newline>'',
          Stdout ''  Created: 2024-05-01 12:00:00\<newline>'',
          Stdout ''  Attributes:\<newline>'',
          Stdout (''      '' @ [dq] @ ''app'' @ [dq] @ '' = '' @ [dq] @ ''demo'' @ [dq, nl]),
          Stdout (''      '' @ [dq] @ ''user'' @ [dq] @ '' = '' @ [dq] @ ''me'' @ [dq, nl])]"
  using attributes_sorted_whatever_the_order
    [where table = "[(''user'', ''me''), (''app'', ''demo'')]"
       and table' = "[(''app'', ''demo''), (''user'', ''me'')]"
       and lib = sample_library and app = unlock_only and item = item_test and indent = "[]"
       and static = None and label = "''Test''" and attrib_indent = "[]"]
  by (simp add: sample_defs run_defs)

text \<open>
  C10. A collection or an item is printed to its end only if its label is present. A null
  label becomes the empty optional, \<open>value()\<close> throws after the opening
  \<open>Collection: "\<close> or \<open>Item: "\<close> has been written, and the exception leaves the block
  and the loops around it: the siblings that follow are not printed, and a run that meets
  a missing label ends with "Error: " and the text of \<open>std::bad_optional_access\<close> on
  standard error. With its label present an item returns normally, and so does a
  collection whose items all have labels.
\<close>

theorem absent_label_aborts_the_report:
  "to_string None = None
   \<and> (col_label col = None \<longrightarrow>
        print_collection lib app col reverse_aliases indent static
          = ([Stdout (indent @ ''Collection: '' @ [dq])], static, Some Bad_optional_access)
        \<and> print_collections lib app (col # cols) reverse_aliases static
          = ([Stdout (''    '' @ ''Collection: '' @ [dq])], static, Some Bad_optional_access))
   \<and> (item_label item = None \<longrightarrow>
        print_item lib app item indent static
          = ([Stdout (indent @ ''Item: '' @ [dq])], static, Some Bad_optional_access)
        \<and> print_items lib app (item # items) indent static
          = ([Stdout (indent @ ''Item: '' @ [dq])], static, Some Bad_optional_access))
   \<and> (item_label item \<noteq> None \<longrightarrow> snd (snd (print_item lib app item indent static)) = None)
   \<and> (col_label col \<noteq> None \<and> (\<forall>item\<in>set (col_items col). item_label item \<noteq> None) \<longrightarrow>
        snd (snd (print_collection lib app col reverse_aliases indent static)) = None)
   \<and> (service_get_error service = None \<and> \<not> labelled service \<longrightarrow>
        snd (print lib app service) = Some Bad_optional_access
        \<and> suffix [Stderr (''Error: '' @ bad_optional_access_what lib @ [nl])]
             (on_activate lib app service))"
  by (rule conjI [OF _ conjI [OF impI conjI [OF impI conjI [OF impI conjI [OF impI impI]]]]])
    (simp add: to_string_def,
     (erule collection_without_label_throws item_without_label_throws item_with_label_returns
       collection_with_labels_returns missing_label_is_fatal)+)

theorem absent_label_aborts_the_report_witness:
  "col_label (collection_login\<lparr>col_label := None\<rparr>) = None
   \<and> service_get_error sample_service = None
   \<and> \<not> labelled (sample_service\<lparr>collections :=
          [collection_login\<lparr>col_items := [item_blob\<lparr>item_label := None\<rparr>, item_test]\<rparr>,
           collection_login\<lparr>col_path := ''/c/other''\<rparr>]\<rparr>)
   \<and> stdout_text (on_activate sample_library unlock_only
        (sample_service\<lparr>collections :=
          [collection_login\<lparr>col_items := [item_blob\<lparr>item_label := None\<rparr>, item_test]\<rparr>,
           collection_login\<lparr>col_path := ''/c/other''\<rparr>]\<rparr>))
      = ''Service\<newline>  Path: /org/freedesktop/secrets\<newline>  Aliases:\<newline>''
        @ ''    default: /c/login\<newline>    login: /c/login\<newline>\<newline>''
        @ ''    Collection: '' @ [dq] @ ''Login'' @ [dq] @ ''\<newline>      Path: /c/login\<newline>''
        @ ''      Alias: default\<newline>      Alias: login\<newline>''
        @ ''      Modified: 2024-05-01 12:00:00\<newline>''
        @ ''      Error: Secret item or collection is locked. dismissed\<newline>\<newline>''
        @ ''        Item: '' @ [dq]
   \<and> Get_locked (Item ''/c/login/2'') False
        \<notin> set (on_activate sample_library unlock_only
        (sample_service\<lparr>collections :=
          [collection_login\<lparr>col_items := [item_blob\<lparr>item_label := None\<rparr>, item_test]\<rparr>,
           collection_login\<lparr>col_path := ''/c/other''\<rparr>]\<rparr>))
   \<and> Get_items ''/c/other''
        \<notin> set (on_activate sample_library unlock_only
        (sample_service\<lparr>collections :=
          [collection_login\<lparr>col_items := [item_blob\<lparr>item_label := None\<rparr>, item_test]\<rparr>,
           collection_login\<lparr>col_path := ''/c/other''\<rparr>]\<rparr>))
   \<and> last (on_activate sample_library unlock_only
        (sample_service\<lparr>collections :=
          [collection_login\<lparr>col_items := [item_blob\<lparr>item_label := None\<rparr>, item_test]\<rparr>,
           collection_login\<lparr>col_path := ''/c/other''\<rparr>]\<rparr>))
      = Stderr ''Error: bad optional access\<newline>''"
  using absent_label_aborts_the_report
    [where col = "collection_login\<lparr>col_label := None\<rparr>" and lib = sample_library
       and app = unlock_only and item = "item_blob\<lparr>item_label := None\<rparr>" and indent = "[]"
       and static = None and reverse_aliases = "[]" and cols = "[]" and items = "[]"
       and service = "sample_service\<lparr>collections :=
          [collection_login\<lparr>col_items := [item_blob\<lparr>item_label := None\<rparr>, item_test]\<rparr>,
           collection_login\<lparr>col_path := ''/c/other''\<rparr>]\<rparr>"]
  by (simp add: sample_defs run_defs labelled_def)

end
